theory Spec2Isabelle
  imports Main
begin

section \<open>JavaScript values and errors\<close>

text \<open>
  The embedding follows \<open>src/dsl/index.js\<close>. A thrown exception is the left summand of a
  result; \<open>Error m\<close> is \<open>new Error(m)\<close>, \<open>TypeError m\<close> is what the engine throws when
  a property of \<open>undefined\<close> is read, a non-function is called or a non-iterable is
  destructured.
\<close>

datatype error = Error string | TypeError string

fun message :: "error \<Rightarrow> string" where
  "message (Error m) = m"
| "message (TypeError m) = m"

text \<open>A property that may be absent (\<open>undefined\<close>) or \<open>null\<close>.\<close>

datatype 'a nullable = Undefined | Null | Value 'a

text \<open>Decimal rendering of a number inside a template string, \<open>`${n}`\<close>.\<close>

definition digitChar :: "nat \<Rightarrow> char" where
  "digitChar d = ''0123456789'' ! (d mod 10)"

function decimal :: "nat \<Rightarrow> string" where
  "decimal n = (if n < 10 then [digitChar n] else decimal (n div 10) @ [digitChar (n mod 10)])"
  by pat_completeness auto
termination
  by (relation "measure id") auto

declare decimal.simps [simp del]

definition numberToString :: "int \<Rightarrow> string" where
  "numberToString n = (if n < 0 then ''-'' @ decimal (nat (- n)) else decimal (nat n))"

text \<open>\<open>xs.join(sep)\<close> on an array of strings.\<close>

fun join :: "string \<Rightarrow> string list \<Rightarrow> string" where
  "join sep [] = []"
| "join sep [x] = x"
| "join sep (x # y # ys) = x @ sep @ join sep (y # ys)"

section \<open>The abstract syntax \<open>toGrammar\<close> consumes\<close>

text \<open>
  The DSL parser (\<open>parser.out.js\<close>) is generated and not part of the sources; the node
  shapes below are the fields \<open>toGrammar\<close> reads. An element of a production is a
  \<open>string\<close> node (\<open>value\<close>), a \<open>call\<close> node (\<open>name.name\<close>, \<open>args\<close>: a list of
  argument lists), an \<open>address\<close> node (\<open>path\<close>), an \<open>id\<close> node (\<open>name\<close>), or a node of
  any other type, which the loop skips.
\<close>

datatype expr =
    StringExpr string
  | Call string "expr list list"
  | Address "string list"
  | Id string
  | OtherExpr

datatype assocKeyword = KwLeft | KwRight | KwNone

text \<open>
  A line of a body. The first field is \<open>line.loc.start.line\<close> when the node has a
  \<open>loc\<close>. A precedence line has \<open>type\<close> \<open>left\<close>, \<open>right\<close> or \<open>none\<close> (the three strings
  \<open>precedenceRegex\<close> accepts) and the \<open>value\<close>s of its tokens; a definition has
  \<open>name.name\<close> and a \<open>body\<close>; a production has \<open>production\<close>, \<open>code\<close> (absent without a
  snippet) and \<open>prec\<close> (\<open>Some\<close> when it is a string); an import is kept whole.
\<close>

datatype line =
    PrecedenceLine "int option" assocKeyword "string list"
  | Definition "int option" string "line list"
  | ProductionLine "int option" "expr list" "string option" "string option"
  | Import "int option" string
  | OtherLine "int option"

fun loc :: "line \<Rightarrow> int option" where
  "loc (PrecedenceLine l _ _) = l"
| "loc (Definition l _ _) = l"
| "loc (ProductionLine l _ _ _) = l"
| "loc (Import l _) = l"
| "loc (OtherLine l) = l"

section \<open>Symbols and scope tables\<close>

text \<open>
  A symbol of a right-hand side is whatever value the code pushes; it never checks
  that the value is a string. \<open>Coerced s\<close> is a value that is not a string (\<open>undefined\<close>,
  a function or object inherited from \<open>Object.prototype\<close>), kept as the string \<open>s\<close>
  that a template string or the \<open>in\<close> operator coerces it to.
\<close>

datatype symbol = Str string | Coerced string

fun toStr :: "symbol \<Rightarrow> string" where
  "toStr (Str s) = s"
| "toStr (Coerced s) = s"

text \<open>
  Every \<open>vars\<close> table is a plain object: \<open>{}\<close> for the top level, \<open>Object.create(vars)\<close>
  for a nested scope. Its prototype chain ends in \<open>Object.prototype\<close>, whose
  properties \<open>name in vars\<close> and \<open>vars[name]\<close> find as well.
\<close>

definition objectPrototype :: "string list" where
  "objectPrototype =
    [''constructor'', ''__defineGetter__'', ''__defineSetter__'', ''hasOwnProperty'',
     ''__lookupGetter__'', ''__lookupSetter__'', ''isPrototypeOf'', ''propertyIsEnumerable'',
     ''toString'', ''valueOf'', ''__proto__'', ''toLocaleString'']"

definition inherited :: "string \<Rightarrow> symbol" where
  "inherited name =
    (if name = ''__proto__'' then Coerced ''[object Object]''
     else Coerced (''function '' @ (if name = ''constructor'' then ''Object'' else name)
                   @ ''() { [native code] }''))"

text \<open>
  The tables live in a store, since a nested scope keeps a reference to its parent's
  table while the parent's body is still being read: a store is the list of the
  tables' own properties, and a \<open>vars\<close> object is the address of its own table
  followed by the addresses of its prototypes, innermost first.
\<close>

type_synonym table = "(string \<times> string) list"

type_synonym vars = "nat list"

definition tableAt :: "table list \<Rightarrow> nat \<Rightarrow> table" where
  "tableAt st a = (if a < length st then st ! a else [])"

text \<open>\<open>vars[name]\<close>, and \<open>name in vars\<close> when the result is not \<open>None\<close>.\<close>

fun lookup :: "table list \<Rightarrow> vars \<Rightarrow> string \<Rightarrow> symbol option" where
  "lookup st [] name = (if name \<in> set objectPrototype then Some (inherited name) else None)"
| "lookup st (a # chain) name =
    (case map_of (tableAt st a) name of
       Some v \<Rightarrow> Some (Str v)
     | None \<Rightarrow> lookup st chain name)"

text \<open>
  \<open>vars[name] = v\<close> writes an own property of the first table; the key \<open>__proto__\<close> is
  the accessor of \<open>Object.prototype\<close>, whose setter ignores a string.
\<close>

definition assign :: "table list \<Rightarrow> vars \<Rightarrow> string \<Rightarrow> string \<Rightarrow> table list" where
  "assign st vs name v =
    (case vs of
       [] \<Rightarrow> st
     | a # _ \<Rightarrow>
        if name = ''__proto__'' \<or> \<not> a < length st then st
        else st[a := (name, v) # filter (\<lambda>kv. fst kv \<noteq> name) (st ! a)])"

text \<open>\<open>Object.create(vars)\<close>: a fresh empty table whose prototype is \<open>vars\<close>.\<close>

definition objectCreate :: "table list \<Rightarrow> vars \<Rightarrow> table list \<times> vars" where
  "objectCreate st vs = (st @ [[]], length st # vs)"

section \<open>The collected list and the macros\<close>

text \<open>An entry of \<open>list\<close>: \<open>{type, line, production, code, prec}\<close>.\<close>

record entry =
  e_type :: string
  e_line :: int
  e_production :: "symbol list"
  e_code :: "string option"
  e_prec :: "string nullable"

text \<open>
  A macro is a function of \<open>context\<close>, called as \<open>fn.apply(localCtxt, e.args)\<close>. Through
  \<open>localCtxt\<close> it reads the scope (\<open>resolve\<close>, \<open>resolvePath\<close>, \<open>preCompile\<close>) and draws
  fresh identifiers (\<open>newId\<close>, which increments the shared counter \<open>i\<close>); it returns a
  handle or throws. The built-in \<open>multiple\<close> also pushes entries onto \<open>list\<close>; a macro
  supplied by the caller cannot reach \<open>list\<close>, so its \<open>pushed\<close> is empty.
\<close>

record localCtxt =
  lc_i :: nat
  lc_lookup :: "string \<Rightarrow> symbol option"

record macroResult =
  handle :: symbol
  counter :: nat
  pushed :: "entry list"

type_synonym macro = "localCtxt \<Rightarrow> expr list list \<Rightarrow> error + macroResult"

text \<open>\<open>localCtxt.resolve(name)\<close> and \<open>localCtxt.resolvePath(path)\<close>.\<close>

definition resolveName :: "(string \<Rightarrow> symbol option) \<Rightarrow> symbol \<Rightarrow> symbol" where
  "resolveName lk name = (case lk (toStr name) of Some v \<Rightarrow> v | None \<Rightarrow> name)"

definition resolvePath :: "(string \<Rightarrow> symbol option) \<Rightarrow> string list \<Rightarrow> symbol" where
  "resolvePath lk path =
    (let root = (case path of [] \<Rightarrow> Coerced ''undefined'' | r # _ \<Rightarrow> Str r);
         rest = tl path;
         resolved = resolveName lk root
     in if rest = [] then resolved
        else Str (toStr resolved @ ''.'' @ join ''.'' rest))"

text \<open>The helper \<open>resolve(ctx, e)\<close> of \<open>toGrammar\<close>.\<close>

fun resolve :: "(string \<Rightarrow> symbol option) \<Rightarrow> expr \<Rightarrow> symbol" where
  "resolve lk (Address path) = resolvePath lk path"
| "resolve lk (StringExpr v) = Str v"
| "resolve lk _ = Coerced ''undefined''"

text \<open>
  \<open>context.multiple([e], [sep] = [null])\<close>. It reads \<open>sourceLine\<close> from the enclosing
  function. Destructuring a missing first argument, or reading \<open>e.type\<close> of a missing
  \<open>e\<close>, throws.
\<close>

definition multiple :: "int \<Rightarrow> macro" where
  "multiple sourceLine lc args =
    (case args of
       [] \<Rightarrow> Inl (TypeError ''undefined is not iterable'')
     | a0 # rest \<Rightarrow>
        (case a0 of
           [] \<Rightarrow> Inl (TypeError ''Cannot read properties of undefined'')
         | e # _ \<Rightarrow>
            let n = lc_i lc + 1;
                name = ''$__'' @ decimal n;
                sep = (case rest of [] \<Rightarrow> None | a1 # _ \<Rightarrow> (case a1 of [] \<Rightarrow> None | s # _ \<Rightarrow> Some s));
                mk = (\<lambda>rhs c. \<lparr>e_type = name, e_line = sourceLine, e_production = rhs,
                               e_code = Some c, e_prec = Undefined\<rparr>)
            in Inr \<lparr>handle = Str name, counter = n,
                    pushed =
                      [mk [] ''[]'',
                       mk [resolve (lc_lookup lc) e] ''[$[0]]'',
                       (case sep of
                          Some s \<Rightarrow>
                            mk [Str name, resolve (lc_lookup lc) s, resolve (lc_lookup lc) e]
                               ''[...$[0], $[2]]''
                        | None \<Rightarrow>
                            mk [Str name, resolve (lc_lookup lc) e] ''[...$[0], $[1]]'')]\<rparr>))"

text \<open>
  \<open>context[name]\<close>: the properties of \<open>ctxt\<close> are copied over the built-in \<open>multiple\<close>.
  \<open>ctxt\<close> stands for everything the lookup finds besides that built-in.
\<close>

definition context' :: "(string \<Rightarrow> macro option) \<Rightarrow> int \<Rightarrow> string \<Rightarrow> macro option" where
  "context' ctxt sourceLine name =
    (case ctxt name of
       Some m \<Rightarrow> Some m
     | None \<Rightarrow> if name = ''multiple'' then Some (multiple sourceLine) else None)"

section \<open>\<open>toGrammar\<close>: collecting the productions\<close>

datatype associativity = LEFT | RIGHT | NONE

text \<open>\<open>precedenceMapper\<close>.\<close>

fun precedenceMapper :: "assocKeyword \<Rightarrow> associativity" where
  "precedenceMapper KwLeft = LEFT"
| "precedenceMapper KwRight = RIGHT"
| "precedenceMapper KwNone = NONE"

text \<open>A level of \<open>precedence\<close>: \<open>{tokens, type}\<close>.\<close>

record level =
  l_tokens :: "string list"
  l_type :: associativity

text \<open>An element of \<open>productions\<close>: \<open>{line: sourceLine, ...line}\<close> of a production line.\<close>

record pending =
  p_line :: int
  p_production :: "expr list"
  p_code :: "string option"
  p_prec :: "string option"

text \<open>An element of the queue \<open>defs\<close>: \<open>{body, name, vars}\<close>.\<close>

record def =
  d_body :: "line list"
  d_name :: string
  d_vars :: vars

text \<open>
  The variables of \<open>toGrammar\<close> that its loops update: \<open>list\<close>, \<open>precedence\<close>,
  \<open>dependencies\<close> (each \<open>{line: sourceLine, ...line}\<close> of an import line), the counter
  \<open>i\<close>, \<open>sourceLine\<close>, and the store of the scope tables.
\<close>

record state =
  s_list :: "entry list"
  s_precedence :: "level list"
  s_dependencies :: "(int \<times> string) list"
  s_i :: nat
  s_sourceLine :: int
  s_store :: "table list"

text \<open>\<open>rootName || ntType\<close>: \<open>null\<close> and the empty string are falsy.\<close>

definition orElse :: "string option \<Rightarrow> string \<Rightarrow> string" where
  "orElse rootName ntType =
    (case rootName of None \<Rightarrow> ntType | Some r \<Rightarrow> if r = [] then ntType else r)"

text \<open>
  Modelled from the spec: the queue utility \<open>Queue\<close> (\<open>collections.js\<close> is not part of
  the sources) is first in, first out: \<open>enqueue\<close> adds at the end, \<open>dequeue\<close> takes the
  head, \<open>length\<close> is the number of elements queued.
\<close>

definition enqueue :: "'v list \<Rightarrow> 'v \<Rightarrow> 'v list" where
  "enqueue q x = q @ [x]"

declare enqueue_def [simp]

text \<open>
  One turn of \<open>for (let line of body)\<close>, for the scope \<open>name\<close> with table \<open>vars\<close>; the
  triple is \<open>toGrammar\<close>'s state, the local \<open>productions\<close> and the queue \<open>defs\<close>.
\<close>

fun scanLine ::
  "string option \<Rightarrow> string \<Rightarrow> vars \<Rightarrow> line \<Rightarrow> state \<Rightarrow> pending list \<Rightarrow> def list
     \<Rightarrow> error + (state \<times> pending list \<times> def list)" where
  "scanLine rootName name vs (PrecedenceLine l kw toks) s ps defs =
    (if name \<noteq> [] then Inl (Error ''Top-level precedence declarations only, please!'')
     else Inr (s\<lparr>s_precedence :=
                   s_precedence s @ [\<lparr>l_tokens = toks, l_type = precedenceMapper kw\<rparr>]\<rparr>,
               ps, defs))"
| "scanLine rootName name vs (Definition l dname body) s ps defs =
    (let ntType = name @ (if name = [] then [] else ''.'') @ dname;
         s1 = s\<lparr>s_store := assign (s_store s) vs dname ntType\<rparr>;
         s2 = (if s_list s1 = []
               then s1\<lparr>s_list := [\<lparr>e_type = ''$$$'', e_line = s_sourceLine s1,
                                     e_production = [Str (orElse rootName ntType)],
                                     e_code = Some ''$[0]'', e_prec = Undefined\<rparr>]\<rparr>
               else s1);
         created = objectCreate (s_store s2) vs
     in Inr (s2\<lparr>s_store := fst created\<rparr>, ps,
             enqueue defs \<lparr>d_body = body, d_name = ntType, d_vars = snd created\<rparr>))"
| "scanLine rootName name vs (ProductionLine l rhs code prec) s ps defs =
    (if name = [] then Inl (Error ''Top level productions not allowed!'')
     else Inr (s, ps @ [\<lparr>p_line = s_sourceLine s, p_production = rhs,
                         p_code = code, p_prec = prec\<rparr>], defs))"
| "scanLine rootName name vs (Import l payload) s ps defs =
    Inr (s\<lparr>s_dependencies := s_dependencies s @ [(s_sourceLine s, payload)]\<rparr>, ps, defs)"
| "scanLine rootName name vs (OtherLine l) s ps defs = Inr (s, ps, defs)"

fun scanBody ::
  "string option \<Rightarrow> string \<Rightarrow> vars \<Rightarrow> line list \<Rightarrow> state \<Rightarrow> pending list \<Rightarrow> def list
     \<Rightarrow> error + (state \<times> pending list \<times> def list)" where
  "scanBody rootName name vs [] s ps defs = Inr (s, ps, defs)"
| "scanBody rootName name vs (ln # body) s ps defs =
    (case scanLine rootName name vs ln
            (s\<lparr>s_sourceLine := (case loc ln of Some l \<Rightarrow> l | None \<Rightarrow> s_sourceLine s)\<rparr>)
            ps defs of
       Inl err \<Rightarrow> Inl err
     | Inr (s', ps', defs') \<Rightarrow> scanBody rootName name vs body s' ps' defs')"

text \<open>
  \<open>for (let e of p.production)\<close>: the elements of one production, resolved into
  \<open>reformed\<close>.
\<close>

fun reform ::
  "(string \<Rightarrow> macro option) \<Rightarrow> vars \<Rightarrow> expr list \<Rightarrow> state \<Rightarrow> symbol list
     \<Rightarrow> error + (state \<times> symbol list)" where
  "reform ctxt vs [] s reformed = Inr (s, reformed)"
| "reform ctxt vs (StringExpr v # es) s reformed = reform ctxt vs es s (reformed @ [Str v])"
| "reform ctxt vs (Call fname args # es) s reformed =
    (case context' ctxt (s_sourceLine s) fname of
       None \<Rightarrow> Inl (TypeError ''Cannot read properties of undefined (reading apply)'')
     | Some fn \<Rightarrow>
        (case fn \<lparr>lc_i = s_i s, lc_lookup = lookup (s_store s) vs\<rparr> args of
           Inl err \<Rightarrow> Inl err
         | Inr r \<Rightarrow>
            if lookup (s_store s) vs (toStr (handle r)) \<noteq> None
            then Inl (Error (''Handle conflict error '' @ toStr (handle r)))
            else reform ctxt vs es (s\<lparr>s_i := counter r, s_list := s_list s @ pushed r\<rparr>)
                   (reformed @ [handle r])))"
| "reform ctxt vs (Address path # es) s reformed =
    (let place = (case path of [] \<Rightarrow> ''undefined'' | p # _ \<Rightarrow> p);
         address = tl path
     in case lookup (s_store s) vs place of
          Some v \<Rightarrow>
            reform ctxt vs es s
              (reformed @ [if address = [] then v else Str (toStr v @ ''.'' @ join ''.'' address)])
        | None \<Rightarrow> Inl (Error (''Non-terminal '' @ [CHR 0x22] @ place @ [CHR 0x22] @ '' not defined'')))"
| "reform ctxt vs (Id name # es) s reformed =
    (case lookup (s_store s) vs name of
       Some v \<Rightarrow> reform ctxt vs es s (reformed @ [v])
     | None \<Rightarrow> Inl (Error (''Non-terminal '' @ [CHR 0x22] @ name @ [CHR 0x22] @ '' not defined'')))"
| "reform ctxt vs (OtherExpr # es) s reformed = reform ctxt vs es s reformed"

text \<open>\<open>productions.forEach\<close>: each production of the scope becomes an entry of \<open>list\<close>.\<close>

fun processProductions ::
  "(string \<Rightarrow> macro option) \<Rightarrow> string \<Rightarrow> vars \<Rightarrow> pending list \<Rightarrow> state \<Rightarrow> error + state" where
  "processProductions ctxt name vs [] s = Inr s"
| "processProductions ctxt name vs (p # ps) s =
    (case reform ctxt vs (p_production p) s [] of
       Inl err \<Rightarrow> Inl err
     | Inr (s', reformed) \<Rightarrow>
        processProductions ctxt name vs ps
          (s'\<lparr>s_list := s_list s' @
                 [\<lparr>e_type = name, e_line = p_line p, e_production = reformed,
                   e_code = p_code p,
                   e_prec = (case p_prec p of Some x \<Rightarrow> Value x | None \<Rightarrow> Null)\<rparr>]\<rparr>))"

text \<open>
  The loop \<open>while (defs.length > 0)\<close> takes the head of the queue, scans its body and
  then resolves its productions. Its measure is the size of the bodies still
  queued.
\<close>

definition queueSize :: "def list \<Rightarrow> nat" where
  "queueSize defs = sum_list (map (\<lambda>d. Suc (size_list size (d_body d))) defs)"

lemma scanLine_queueSize:
  "scanLine rootName name vs ln s ps defs = Inr (s', ps', defs')
     \<Longrightarrow> queueSize defs' \<le> queueSize defs + size ln"
  by (cases ln) (auto simp: queueSize_def Let_def split: if_splits)

lemma scanBody_queueSize:
  "scanBody rootName name vs body s ps defs = Inr (s', ps', defs')
     \<Longrightarrow> queueSize defs' \<le> queueSize defs + size_list size body"
proof (induction body arbitrary: s ps defs)
  case Nil
  then show ?case by simp
next
  case (Cons ln body)
  from Cons.prems obtain s1 ps1 defs1 where
    step: "scanLine rootName name vs ln
             (s\<lparr>s_sourceLine := (case loc ln of Some l \<Rightarrow> l | None \<Rightarrow> s_sourceLine s)\<rparr>)
             ps defs = Inr (s1, ps1, defs1)"
    and rest: "scanBody rootName name vs body s1 ps1 defs1 = Inr (s', ps', defs')"
    by (auto split: sum.splits)
  from scanLine_queueSize [OF step] Cons.IH [OF rest] show ?case by simp
qed

function processQueue ::
  "string option \<Rightarrow> (string \<Rightarrow> macro option) \<Rightarrow> state \<Rightarrow> def list \<Rightarrow> error + state" where
  "processQueue rootName ctxt s [] = Inr s"
| "processQueue rootName ctxt s (d # defs) =
    (case scanBody rootName (d_name d) (d_vars d) (d_body d) s [] defs of
       Inl err \<Rightarrow> Inl err
     | Inr (s1, productions, defs1) \<Rightarrow>
        (case processProductions ctxt (d_name d) (d_vars d) productions s1 of
           Inl err \<Rightarrow> Inl err
         | Inr s2 \<Rightarrow> processQueue rootName ctxt s2 defs1))"
  by pat_completeness auto
termination
proof (relation "measure (\<lambda>(rootName, ctxt, s, defs). queueSize defs)")
  show "wf (measure (\<lambda>(rootName, ctxt, s, defs). queueSize defs))" by simp
next
  fix rootName :: "string option" and ctxt :: "string \<Rightarrow> macro option"
    and s s1 s2 :: state and d :: def and defs defs1 :: "def list"
    and x :: "state \<times> pending list \<times> def list" and y :: "pending list \<times> def list"
    and productions :: "pending list"
  assume "scanBody rootName (d_name d) (d_vars d) (d_body d) s [] defs = Inr x"
    and "(s1, y) = x" and "(productions, defs1) = y"
  then have "scanBody rootName (d_name d) (d_vars d) (d_body d) s [] defs
               = Inr (s1, productions, defs1)"
    by simp
  from scanBody_queueSize [OF this]
  show "((rootName, ctxt, s2, defs1), (rootName, ctxt, s, d # defs))
          \<in> measure (\<lambda>(rootName, ctxt, s, defs). queueSize defs)"
    by (simp add: queueSize_def)
qed

text \<open>
  The part of \<open>toGrammar\<close> up to the end of the \<open>while\<close> loop: the queue starts with
  the whole input under the empty name and the table \<open>{}\<close>.
\<close>

definition initial :: state where
  "initial = \<lparr>s_list = [], s_precedence = [], s_dependencies = [], s_i = 0,
              s_sourceLine = 0, s_store = [[]]\<rparr>"

definition collect ::
  "line list \<Rightarrow> string option \<Rightarrow> (string \<Rightarrow> macro option) \<Rightarrow> error + state" where
  "collect code rootName ctxt =
    processQueue rootName ctxt initial [\<lparr>d_body = code, d_name = [], d_vars = [0]\<rparr>]"

section \<open>\<open>compileLS\<close>\<close>

text \<open>
  LiveScript and acorn are libraries: \<open>ls_compile src\<close> is
  \<open>ls.compile(src, {bare: true, header: false})\<close> and \<open>acorn_parse src\<close> is
  \<open>acorn.parseExpressionAt(src, 0)\<close>, each \<open>None\<close> when the call throws.
\<close>

record 'a libs =
  ls_compile :: "string \<Rightarrow> string option"
  acorn_parse :: "string \<Rightarrow> 'a option"

text \<open>The loop over \<open>aliases\<close>: pad \<open>aliasList\<close> with empty names up to \<open>index\<close>, then store.\<close>

definition setAlias :: "string list \<Rightarrow> nat \<times> string \<Rightarrow> string list" where
  "setAlias aliasList a =
    (aliasList @ replicate (Suc (fst a) - length aliasList) [])[fst a := snd a]"

definition compileLS :: "'a libs \<Rightarrow> string \<Rightarrow> (nat \<times> string) list \<Rightarrow> error + 'a" where
  "compileLS libs code aliases =
    (let aliasList = foldl setAlias [] aliases;
         params = (if length aliasList > 0 then ''(['' @ join '','' aliasList @ ''] = $)'' else []);
         src = ''return do '' @ params @ '' => ''
                 @ (if CHR 0x0A \<in> set code then [CHR 0x0A] else []) @ code
     in case ls_compile libs src of
          None \<Rightarrow> Inl (Error ''Cannot parse!'')
        | Some c \<Rightarrow>
           (case acorn_parse libs (''function ($, $loc, $rule) {'' @ c @ ''}'') of
              None \<Rightarrow> Inl (Error ''Cannot parse!'')
            | Some ast \<Rightarrow> Inr ast))"

section \<open>Objects: grammars, action tables, crane grammars\<close>

text \<open>
  A value stored in an action table or passed as an action: the syntax tree of a
  snippet, a function, \<open>null\<close>, \<open>undefined\<close>, or anything else.
\<close>

datatype ('a, 'f) val = VAst 'a | VFunction 'f | VNull | VUndefined | VOther string

text \<open>\<open>typeof v === 'function'\<close>.\<close>

fun isFunction :: "('a, 'f) val \<Rightarrow> bool" where
  "isFunction (VFunction f) = True"
| "isFunction _ = False"

text \<open>A production as \<open>Grammar\<close> receives it: \<open>{type, production, prec}\<close>.\<close>

record production =
  pr_type :: string
  pr_production :: "symbol list"
  pr_prec :: "string nullable"

text \<open>
  Modelled from the spec: the class \<open>Grammar\<close> (\<open>grammar.js\<close> is not part of the
  sources). A grammar is constructed from an ordered production list, a root index
  and a precedence specification, and holds them.
\<close>

record grammar =
  productions :: "production list"
  root :: nat
  precedence :: "level list"

text \<open>
  Modelled from the spec: \<open>addProduction(lhs, rhs, meta)\<close> of \<open>Grammar\<close> appends a
  production and returns its id. \<open>meta\<close> is given by its \<open>prec\<close>.
\<close>

definition addProduction ::
  "grammar \<Rightarrow> string \<Rightarrow> symbol list \<Rightarrow> string nullable \<Rightarrow> grammar \<times> nat" where
  "addProduction g lhs rhs meta =
    (g\<lparr>productions := productions g @ [\<lparr>pr_type = lhs, pr_production = rhs, pr_prec = meta\<rparr>]\<rparr>,
     length (productions g))"

text \<open>
  The four fields of a \<open>CraneGrammar\<close>; each holds a reference, since \<open>cook\<close> hands the
  same grammar, dependencies and line mappings to a second object.
\<close>

record crane =
  c_grammar :: nat
  c_actions :: nat
  c_dependencies :: nat
  c_sourceLineMappings :: nat

text \<open>
  The heap: a \<open>Grammar\<close>, a plain object with integer keys (an action table, its
  properties in the order \<open>for ... in\<close> visits them), the array \<open>dependencies\<close>, an
  array \<open>sourceLineMappings\<close> (\<open>None\<close> is a hole), a \<open>ColdCraneGrammar\<close>, and a
  \<open>HotCraneGrammar\<close> with its \<open>origin\<close>. An address is an index of the heap.
\<close>

datatype ('a, 'f) object =
    GrammarObj grammar
  | ActionsObj "(nat \<times> ('a, 'f) val) list"
  | ImportsArray "(int \<times> string) list"
  | LinesArray "int option list"
  | Cold crane
  | Hot crane "nat option"

type_synonym ('a, 'f) heap = "('a, 'f) object list"

definition objectAt :: "('a, 'f) heap \<Rightarrow> nat \<Rightarrow> ('a, 'f) object option" where
  "objectAt h a = (if a < length h then Some (h ! a) else None)"

definition alloc :: "('a, 'f) heap \<Rightarrow> ('a, 'f) object \<Rightarrow> ('a, 'f) heap \<times> nat" where
  "alloc h obj = (h @ [obj], length h)"

text \<open>\<open>obj[k] = v\<close> with an integer key: integer keys are kept in ascending order.\<close>

fun objSet :: "nat \<Rightarrow> 'v \<Rightarrow> (nat \<times> 'v) list \<Rightarrow> (nat \<times> 'v) list" where
  "objSet k v [] = [(k, v)]"
| "objSet k v ((k', v') # kvs) =
    (if k = k' then (k, v) # kvs
     else if k < k' then (k, v) # (k', v') # kvs
     else (k', v') # objSet k v kvs)"

text \<open>\<open>xs[i] = v\<close> on an array: a write past the end leaves holes.\<close>

definition arraySet :: "'v option list \<Rightarrow> nat \<Rightarrow> 'v \<Rightarrow> 'v option list" where
  "arraySet xs i v =
    (if i < length xs then xs[i := Some v]
     else xs @ replicate (i - length xs) None @ [Some v])"

text \<open>The fields of a crane grammar of either class.\<close>

fun craneOf :: "('a, 'f) object \<Rightarrow> crane option" where
  "craneOf (Cold c) = Some c"
| "craneOf (Hot c origin) = Some c"
| "craneOf _ = None"

text \<open>
  The constructor of \<open>CraneGrammar\<close>, run by \<open>new ColdCraneGrammar(...)\<close> and
  \<open>new HotCraneGrammar(...)\<close>: \<open>mk\<close> is the class (\<open>Cold\<close>, or \<open>Hot\<close> with
  \<open>origin = null\<close>). Reading \<open>grammar.productions.length\<close> throws when \<open>grammar\<close> is not
  a grammar.
\<close>

definition newCraneGrammar ::
  "(crane \<Rightarrow> ('a, 'f) object) \<Rightarrow> ('a, 'f) heap \<Rightarrow> nat \<Rightarrow> nat \<Rightarrow> nat
     \<Rightarrow> error + (('a, 'f) heap \<times> nat)" where
  "newCraneGrammar mk h g a d =
    (case objectAt h g of
       Some (GrammarObj gr) \<Rightarrow>
         (let m = alloc h (LinesArray (replicate (length (productions gr)) (Some (- 1))))
          in Inr (alloc (fst m)
                    (mk \<lparr>c_grammar = g, c_actions = a, c_dependencies = d,
                         c_sourceLineMappings = snd m\<rparr>)))
     | _ \<Rightarrow> Inl (TypeError ''Cannot read properties of undefined (reading length)''))"

text \<open>\<open>addSourceLineMapping(production, line)\<close>.\<close>

definition addSourceLineMapping ::
  "('a, 'f) heap \<Rightarrow> nat \<Rightarrow> nat \<Rightarrow> int \<Rightarrow> error + ('a, 'f) heap" where
  "addSourceLineMapping h this prd ln =
    (case Option.bind (objectAt h this) craneOf of
       None \<Rightarrow> Inl (TypeError ''not a CraneGrammar'')
     | Some c \<Rightarrow>
        (case objectAt h (c_sourceLineMappings c) of
           Some (LinesArray xs) \<Rightarrow>
             Inr (h[c_sourceLineMappings c := LinesArray (arraySet xs prd ln)])
         | _ \<Rightarrow> Inl (TypeError ''sourceLineMappings is not an array'')))"

text \<open>
  Modelled from the spec: \<open>clone()\<close> of \<open>Grammar\<close> returns a deep, independent copy,
  that is a new object holding the same productions, root and precedence. Like
  \<open>clr\<close> and \<open>generateParsingTable\<close> below it returns the heap together with the
  result, so that the heap after a throw can be read as well.
\<close>

definition clone :: "('a, 'f) heap \<Rightarrow> nat \<Rightarrow> ('a, 'f) heap \<times> (error + nat)" where
  "clone h g =
    (case objectAt h g of
       Some (GrammarObj gr) \<Rightarrow> (fst (alloc h (GrammarObj gr)), Inr (snd (alloc h (GrammarObj gr))))
     | _ \<Rightarrow> (h, Inl (TypeError ''clone is not a function'')))"

text \<open>
  What a table builder computes from the contents of a grammar and the \<open>debug\<close>
  flag: the grammar as it leaves it, and the table or the error.
\<close>

type_synonym 't builder = "grammar \<Rightarrow> bool \<Rightarrow> grammar \<times> (error + 't)"

text \<open>
  Modelled from the spec: the table builder \<open>clr\<close> (\<open>generator.js\<close> is not part of the
  sources) works on the grammar object it is handed, which it may augment with
  auxiliary productions, and returns a table or throws. \<open>builder\<close> is what it computes
  from the grammar's contents: the grammar as it leaves it, and the table or the
  error.
\<close>


definition clr ::
  "'t builder \<Rightarrow> ('a, 'f) heap \<Rightarrow> nat \<Rightarrow> bool \<Rightarrow> ('a, 'f) heap \<times> (error + 't)" where
  "clr builder h g debug =
    (case objectAt h g of
       Some (GrammarObj gr) \<Rightarrow>
         (h[g := GrammarObj (fst (builder gr debug))], snd (builder gr debug))
     | _ \<Rightarrow> (h, Inl (TypeError ''not a grammar'')))"

text \<open>\<open>generateParsingTable(debug)\<close>: \<open>clr(this.grammar.clone(), debug)\<close>.\<close>

definition generateParsingTable ::
  "'t builder \<Rightarrow> ('a, 'f) heap \<Rightarrow> nat \<Rightarrow> bool \<Rightarrow> ('a, 'f) heap \<times> (error + 't)" where
  "generateParsingTable builder h this debug =
    (case Option.bind (objectAt h this) craneOf of
       None \<Rightarrow> (h, Inl (TypeError ''not a CraneGrammar''))
     | Some c \<Rightarrow>
        (case clone h (c_grammar c) of
           (h1, Inl err) \<Rightarrow> (h1, Inl err)
         | (h1, Inr copy) \<Rightarrow> clr builder h1 copy debug))"

section \<open>\<open>ColdCraneGrammar\<close> and \<open>HotCraneGrammar\<close>\<close>

text \<open>
  \<open>parseInt(key, 10)\<close>: leading white space and a sign are skipped, the longest run of
  decimal digits is read, and the result is \<open>NaN\<close> (\<open>None\<close>) when there is none.
\<close>

definition isDigit :: "char \<Rightarrow> bool" where
  "isDigit c = (c \<in> set ''0123456789'')"

definition digitValue :: "char \<Rightarrow> nat" where
  "digitValue c = of_char c - 48"

definition isWhite :: "char \<Rightarrow> bool" where
  "isWhite c = (c \<in> set [CHR 0x20, CHR 0x09, CHR 0x0A, CHR 0x0B, CHR 0x0C, CHR 0x0D])"

definition parseInt :: "string \<Rightarrow> int option" where
  "parseInt str =
    (let s = dropWhile isWhite str;
         neg = (s \<noteq> [] \<and> hd s = CHR ''-'');
         s' = (if s \<noteq> [] \<and> (hd s = CHR ''-'' \<or> hd s = CHR ''+'') then tl s else s);
         ds = takeWhile isDigit s'
     in if ds = [] then None
        else Some ((if neg then - 1 else 1)
                   * int (foldl (\<lambda>acc c. 10 * acc + digitValue c) 0 ds)))"

text \<open>
  A \<open>Property\<close> node of the object expression \<open>getActionAST\<close> builds: the literal of
  its computed key and its value.
\<close>

record ('a, 'f) property =
  prop_key :: "int option"
  prop_value :: "('a, 'f) val"

text \<open>
  \<open>getActionAST()\<close>: one property for each own key of \<open>this.actions\<close>; the key of the
  integer \<open>k\<close> is the string \<open>decimal k\<close>.
\<close>

definition getActionAST ::
  "('a, 'f) heap \<Rightarrow> nat \<Rightarrow> error + ('a, 'f) property list" where
  "getActionAST h this =
    (case Option.bind (objectAt h this) craneOf of
       None \<Rightarrow> Inl (TypeError ''not a CraneGrammar'')
     | Some c \<Rightarrow>
        (case objectAt h (c_actions c) of
           Some (ActionsObj kvs) \<Rightarrow>
             Inr (map (\<lambda>kv. \<lparr>prop_key = parseInt (decimal (fst kv)), prop_value = snd kv\<rparr>) kvs)
         | _ \<Rightarrow> Inl (TypeError ''actions is not an object'')))"

text \<open>
  \<open>vm.runInNewContext(escodegen.generate(ast), {})\<close> on the program whose only
  statement is that object expression: each property's value is evaluated in turn
  (\<open>evaluate\<close>, which those libraries compute and which may throw) and stored under its
  computed key. A key that is not a non-negative integer names no production and is
  left out of the table.
\<close>

fun runInNewContext ::
  "(('a, 'f) val \<Rightarrow> error + ('a, 'f) val) \<Rightarrow> ('a, 'f) property list
     \<Rightarrow> (nat \<times> ('a, 'f) val) list \<Rightarrow> error + (nat \<times> ('a, 'f) val) list" where
  "runInNewContext evaluate [] obj = Inr obj"
| "runInNewContext evaluate (p # ps) obj =
    (case evaluate (prop_value p) of
       Inl err \<Rightarrow> Inl err
     | Inr v \<Rightarrow>
        runInNewContext evaluate ps
          (case prop_key p of
             None \<Rightarrow> obj
           | Some k \<Rightarrow> if 0 \<le> k then objSet (nat k) v obj else obj))"

text \<open>\<open>cook()\<close> of \<open>ColdCraneGrammar\<close>.\<close>

definition cook ::
  "(('a, 'f) val \<Rightarrow> error + ('a, 'f) val) \<Rightarrow> ('a, 'f) heap \<Rightarrow> nat
     \<Rightarrow> error + (('a, 'f) heap \<times> nat)" where
  "cook evaluate h this =
    (case objectAt h this of
       Some (Cold c) \<Rightarrow>
         (case getActionAST h this of
            Inl err \<Rightarrow> Inl err
          | Inr properties \<Rightarrow>
             (case runInNewContext evaluate properties [] of
                Inl err \<Rightarrow> Inl err
              | Inr obj \<Rightarrow>
                 (let made = alloc h (ActionsObj obj)
                  in case newCraneGrammar (\<lambda>c. Hot c None) (fst made) (c_grammar c) (snd made)
                            (c_dependencies c) of
                       Inl err \<Rightarrow> Inl err
                     | Inr (h', cooked) \<Rightarrow>
                        (case objectAt h' cooked of
                           Some (Hot k origin) \<Rightarrow>
                             Inr (h'[cooked :=
                                      Hot (k\<lparr>c_sourceLineMappings := c_sourceLineMappings c\<rparr>)
                                          (Some this)],
                                  cooked)
                         | _ \<Rightarrow> Inl (TypeError ''not a HotCraneGrammar'')))))
     | _ \<Rightarrow> Inl (TypeError ''cook is not a function''))"

text \<open>
  \<open>augment(nt, tokens, action = null)\<close> of \<open>HotCraneGrammar\<close>: the action is stored
  first, under the number of productions at that moment, and the production is
  appended after it.
\<close>

definition augment ::
  "('a, 'f) heap \<Rightarrow> nat \<Rightarrow> string \<Rightarrow> symbol list \<Rightarrow> ('a, 'f) val \<Rightarrow> error + ('a, 'f) heap" where
  "augment h this nt tokens action =
    (case objectAt h this of
       Some (Hot c origin) \<Rightarrow>
         (case objectAt h (c_grammar c) of
            Some (GrammarObj g) \<Rightarrow>
              (let act = (if action = VUndefined then VNull else action)
               in case (if isFunction act
                        then (case objectAt h (c_actions c) of
                                Some (ActionsObj kvs) \<Rightarrow>
                                  Inr (h[c_actions c :=
                                          ActionsObj (objSet (length (productions g)) act kvs)])
                              | _ \<Rightarrow> Inl (TypeError ''actions is not an object''))
                        else Inr h) of
                    Inl err \<Rightarrow> Inl err
                  | Inr h1 \<Rightarrow>
                     Inr (h1[c_grammar c :=
                               GrammarObj (fst (addProduction g nt tokens Undefined))]))
          | _ \<Rightarrow> Inl (TypeError ''Cannot read properties of undefined (reading length)''))
     | _ \<Rightarrow> Inl (TypeError ''augment is not a function''))"

section \<open>\<open>toGrammar\<close>: building the grammar\<close>

text \<open>\<open>extractor('type', 'production', 'prec')\<close>.\<close>

definition extractor :: "entry \<Rightarrow> production" where
  "extractor e = \<lparr>pr_type = e_type e, pr_production = e_production e, pr_prec = e_prec e\<rparr>"

text \<open>
  \<open>list.reduce((obj, {code}, i) => ((code ? obj[i] = compileLS(code) : null), obj), {})\<close>,
  from the index \<open>i\<close> on. A snippet is truthy when it is present and not the empty
  string.
\<close>

fun compileActions ::
  "'a libs \<Rightarrow> entry list \<Rightarrow> nat \<Rightarrow> (nat \<times> ('a, 'f) val) list
     \<Rightarrow> error + (nat \<times> ('a, 'f) val) list" where
  "compileActions libs [] i obj = Inr obj"
| "compileActions libs (e # es) i obj =
    (case e_code e of
       None \<Rightarrow> compileActions libs es (Suc i) obj
     | Some code \<Rightarrow>
        if code = [] then compileActions libs es (Suc i) obj
        else (case compileLS libs code [] of
                Inl err \<Rightarrow> Inl err
              | Inr ast \<Rightarrow> compileActions libs es (Suc i) (objSet i (VAst ast) obj)))"

text \<open>\<open>list.forEach((p, i) => craneGrammar.addSourceLineMapping(i, p.line))\<close>.\<close>

fun addSourceLineMappings ::
  "('a, 'f) heap \<Rightarrow> nat \<Rightarrow> entry list \<Rightarrow> nat \<Rightarrow> error + ('a, 'f) heap" where
  "addSourceLineMappings h cg [] i = Inr h"
| "addSourceLineMappings h cg (e # es) i =
    (case addSourceLineMapping h cg i (e_line e) of
       Inl err \<Rightarrow> Inl err
     | Inr h' \<Rightarrow> addSourceLineMappings h' cg es (Suc i))"

text \<open>
  \<open>toGrammar(code, rootName, ctxt)\<close>. The objects it creates are added to the heap:
  the grammar, the action table, the dependencies and the cold crane grammar with
  its line mappings.
\<close>

definition toGrammar ::
  "'a libs \<Rightarrow> ('a, 'f) heap \<Rightarrow> line list \<Rightarrow> string option \<Rightarrow> (string \<Rightarrow> macro option)
     \<Rightarrow> error + (('a, 'f) heap \<times> nat)" where
  "toGrammar libs h code rootName ctxt =
    (case collect code rootName ctxt of
       Inl err \<Rightarrow> Inl err
     | Inr s \<Rightarrow>
        (case compileActions libs (s_list s) 0 [] of
           Inl err \<Rightarrow> Inl err
         | Inr acts \<Rightarrow>
            (let g = alloc h (GrammarObj \<lparr>productions = map extractor (s_list s), root = 0,
                                         precedence = s_precedence s\<rparr>);
                 a = alloc (fst g) (ActionsObj acts);
                 d = alloc (fst a) (ImportsArray (s_dependencies s))
             in case newCraneGrammar Cold (fst d) (snd g) (snd a) (snd d) of
                  Inl err \<Rightarrow> Inl err
                | Inr (h', craneGrammar) \<Rightarrow>
                   (case addSourceLineMappings h' craneGrammar (s_list s) 0 of
                      Inl err \<Rightarrow> Inl err
                    | Inr h'' \<Rightarrow> Inr (h'', craneGrammar)))))"

section \<open>\<open>getLoc\<close> and \<open>compile\<close>\<close>

record position =
  line :: int
  column :: int

text \<open>
  A token as \<open>compile\<close> reads it: \<open>getLoc\<close> takes its \<open>source\<close> and its \<open>range\<close>. The
  source is the list of the characters that \<open>for (const c of source)\<close> visits.
\<close>

record token =
  t_source :: string
  t_range :: "int list"

text \<open>
  The loop of \<open>getLoc\<close>, with \<open>list\<close>, \<open>line\<close>, \<open>column\<close> and \<open>i\<close>. \<open>range[list.length]\<close>
  is \<open>undefined\<close> past the end of \<open>range\<close> and then equals no \<open>i\<close>; the result
  \<open>{start, end}\<close> takes the first two elements of \<open>list\<close>, \<open>undefined\<close> (\<open>None\<close>) where
  there is none. Falling off the end of the loop returns \<open>undefined\<close> (\<open>None\<close>).
\<close>

definition element :: "'v list \<Rightarrow> nat \<Rightarrow> 'v option" where
  "element xs n = (if n < length xs then Some (xs ! n) else None)"

fun getLocLoop ::
  "string \<Rightarrow> int list \<Rightarrow> position list \<Rightarrow> int \<Rightarrow> int \<Rightarrow> int
     \<Rightarrow> (position option \<times> position option) option" where
  "getLocLoop [] rng lst ln col i = None"
| "getLocLoop (c # cs) rng lst ln col i =
    (let hit = (element rng (length lst) = Some i);
         lst' = (if hit then lst @ [\<lparr>line = ln, column = col\<rparr>] else lst)
     in if hit \<and> length lst' = length rng then Some (element lst' 0, element lst' 1)
        else if c = CHR 0x0A then getLocLoop cs rng lst' (ln + 1) 0 (i + 1)
        else getLocLoop cs rng lst' ln (col + 1) (i + 1))"

definition getLoc :: "token \<Rightarrow> (position option \<times> position option) option" where
  "getLoc t = getLocLoop (t_source t) (t_range t) [] 1 0 0"

text \<open>
  The generated parser and the tokenizer are not part of the sources: \<open>newParser\<close> is
  \<open>new Parser({context, source})\<close>, \<open>push\<close> and \<open>finish\<close> are its methods on the
  parser's state, and \<open>tokenize\<close> gives the tokens it yields and what it throws after
  them, if anything.
\<close>

record 'p parser =
  newParser :: "string \<Rightarrow> 'p"
  push :: "'p \<Rightarrow> token \<Rightarrow> error + 'p"
  finish :: "'p \<Rightarrow> error + line list"
  tokenize :: "string \<Rightarrow> token list \<times> error option"

text \<open>
  The body of \<open>for (let token of tokenize(string + '\n'))\<close>: a failing \<open>push\<close> is
  caught and located, and reading \<open>.start\<close> of an undefined \<open>getLoc(token)\<close> throws.
\<close>

fun pushAll :: "('p \<Rightarrow> token \<Rightarrow> error + 'p) \<Rightarrow> 'p \<Rightarrow> token list \<Rightarrow> error + 'p" where
  "pushAll psh parsing [] = Inr parsing"
| "pushAll psh parsing (t # ts) =
    (case psh parsing t of
       Inl e \<Rightarrow>
         (case getLoc t of
            None \<Rightarrow> Inl (TypeError ''Cannot read properties of undefined (reading start)'')
          | Some se \<Rightarrow>
             (case fst se of
                None \<Rightarrow> Inl (TypeError ''Cannot destructure undefined'')
              | Some start \<Rightarrow>
                 Inl (Error (message e @ '' @'' @ numberToString (line start) @ '':''
                             @ numberToString (column start)))))
     | Inr parsing' \<Rightarrow> pushAll psh parsing' ts)"

text \<open>
  \<open>context.node\<close> is a proxy of a plain object: called as a macro, its \<open>get\<close> trap
  answers \<open>fn.apply\<close> with a function that returns an object, which is the handle.
\<close>

definition node :: macro where
  "node lc args = Inr \<lparr>handle = Coerced ''[object Object]'', counter = lc_i lc, pushed = []\<rparr>"

text \<open>\<open>compile(string, name, additional)\<close>.\<close>

definition compile ::
  "'a libs \<Rightarrow> 'p parser \<Rightarrow> ('a, 'f) heap \<Rightarrow> string \<Rightarrow> string option
     \<Rightarrow> (string \<Rightarrow> macro option) \<Rightarrow> error + (('a, 'f) heap \<times> nat)" where
  "compile libs prs h string name additional =
    (let ctx = (\<lambda>n. case additional n of
                      Some m \<Rightarrow> Some m
                    | None \<Rightarrow> if n = ''node'' then Some node else None);
         parsing = newParser prs string;
         tokens = tokenize prs (string @ [CHR 0x0A])
     in case pushAll (push prs) parsing (fst tokens) of
          Inl err \<Rightarrow> Inl err
        | Inr parsing' \<Rightarrow>
           (case snd tokens of
              Some err \<Rightarrow> Inl err
            | None \<Rightarrow>
               (case finish prs parsing' of
                  Inl err \<Rightarrow> Inl err
                | Inr ast \<Rightarrow> toGrammar libs h ast name ctx)))"

section \<open>Positions in a source text\<close>

text \<open>
  One turn of the loop of \<open>getLoc\<close> on the pair of \<open>line\<close> and \<open>column\<close>: a newline
  advances the line and resets the column, any other character advances the column.
\<close>

definition step :: "position \<Rightarrow> char \<Rightarrow> position" where
  "step p c =
    (if c = CHR 0x0A then \<lparr>line = line p + 1, column = 0\<rparr> else p\<lparr>column := column p + 1\<rparr>)"

text \<open>
  The position of the character offset \<open>k\<close>, said without the loop: the line is one
  more than the number of newlines before the offset, the column is the number of
  characters between the last of those newlines and the offset.
\<close>

definition lineAt :: "string \<Rightarrow> nat \<Rightarrow> int" where
  "lineAt src k = 1 + int (count_list (take k src) (CHR 0x0A))"

definition columnAt :: "string \<Rightarrow> nat \<Rightarrow> int" where
  "columnAt src k = int (length (takeWhile (\<lambda>c. c \<noteq> CHR 0x0A) (rev (take k src))))"

section \<open>Notions the properties are stated with\<close>

text \<open>The name of the first definition of a body.\<close>

fun firstDefinition :: "line list \<Rightarrow> string option" where
  "firstDefinition [] = None"
| "firstDefinition (Definition l dname body # lns) = Some dname"
| "firstDefinition (ln # lns) = firstDefinition lns"

text \<open>The synthetic root production for the start non-terminal \<open>nt\<close>.\<close>

definition rootProduction :: "string option \<Rightarrow> string \<Rightarrow> production" where
  "rootProduction rootName nt =
    \<lparr>pr_type = ''$$$'', pr_production = [Str (orElse rootName nt)], pr_prec = Undefined\<rparr>"

text \<open>A snippet is truthy when it is present and not the empty string.\<close>

definition truthy :: "string option \<Rightarrow> bool" where
  "truthy code = (case code of None \<Rightarrow> False | Some c \<Rightarrow> c \<noteq> [])"

text \<open>
  The precedence declarations of a body in the order of the input, each with its
  token values and its associativity: \<open>left\<close> is \<open>LEFT\<close>, \<open>right\<close> is \<open>RIGHT\<close>, \<open>none\<close> is
  \<open>NONE\<close>.
\<close>

fun declaredLevels :: "line list \<Rightarrow> level list" where
  "declaredLevels [] = []"
| "declaredLevels (PrecedenceLine l kw toks # lns) =
    \<lparr>l_tokens = toks,
      l_type = (case kw of KwLeft \<Rightarrow> LEFT | KwRight \<Rightarrow> RIGHT | KwNone \<Rightarrow> NONE)\<rparr>
    # declaredLevels lns"
| "declaredLevels (ln # lns) = declaredLevels lns"

text \<open>A line that is a precedence declaration or holds one in a nested body.\<close>

fun declaresPrecedence :: "line \<Rightarrow> bool" where
  "declaresPrecedence (PrecedenceLine l kw toks) = True"
| "declaresPrecedence (Definition l dname body) = list_ex declaresPrecedence body"
| "declaresPrecedence _ = False"

text \<open>A definition is named when its name is not the empty string.\<close>

fun namedDefinition :: "line \<Rightarrow> bool" where
  "namedDefinition (Definition l dname body) = (dname \<noteq> [])"
| "namedDefinition _ = True"

text \<open>The scopes a body opens: the full name and the body of each of its definitions.\<close>

fun children :: "string \<Rightarrow> line list \<Rightarrow> (string \<times> line list) list" where
  "children name [] = []"
| "children name (Definition l dname body # lns) =
    (name @ (if name = [] then [] else ''.'') @ dname, body) # children name lns"
| "children name (ln # lns) = children name lns"

text \<open>
  Modelled from the spec: the runtime that fires the actions (\<open>parser-factory.js\<close>) is
  not part of the sources. A reduction by the production \<open>pr\<close> with id \<open>p\<close> resolves to
  its action when the action table has one under \<open>p\<close>; an absent action means the
  first symbol's value, or an empty sequence if the right-hand side is empty.
\<close>

datatype ('a, 'f) resolution = ByAction "('a, 'f) val" | FirstSymbolValue | EmptySequence

text \<open>
  Modelled from the spec: the resolution of the production \<open>pr\<close> with id \<open>p\<close> under an
  action table, as said above.
\<close>

definition resolution ::
  "(nat \<times> ('a, 'f) val) list \<Rightarrow> nat \<Rightarrow> production \<Rightarrow> ('a, 'f) resolution" where
  "resolution acts p pr =
    (case map_of acts p of
       Some a \<Rightarrow> ByAction a
     | None \<Rightarrow> if pr_production pr = [] then EmptySequence else FirstSymbolValue)"

text \<open>
  The evaluation of an action by \<open>cook\<close>: it succeeds when it does not throw, and an
  entry of the cold table becomes the value it evaluates to.
\<close>

definition succeeds :: "(('a, 'f) val \<Rightarrow> error + ('a, 'f) val) \<Rightarrow> ('a, 'f) val \<Rightarrow> bool" where
  "succeeds evaluate v = (case evaluate v of Inl err \<Rightarrow> False | Inr w \<Rightarrow> True)"

definition evaluated ::
  "(('a, 'f) val \<Rightarrow> error + ('a, 'f) val) \<Rightarrow> ('a, 'f) val option \<Rightarrow> ('a, 'f) val option" where
  "evaluated evaluate v =
    (case v of
       None \<Rightarrow> None
     | Some a \<Rightarrow> (case evaluate a of Inl err \<Rightarrow> None | Inr w \<Rightarrow> Some w))"

section \<open>The conflict policy of the table builder\<close>

text \<open>
  Modelled from the spec: the precedence table (\<open>precedence.js\<close> is not part of the
  sources) assigns every listed terminal a numeric level, its list position, and
  an associativity; the lookup returns both, or nothing for an undeclared terminal.
\<close>

fun levelOf :: "level list \<Rightarrow> nat \<Rightarrow> string \<Rightarrow> (nat \<times> associativity) option" where
  "levelOf [] n t = None"
| "levelOf (l # ls) n t =
    (if t \<in> set (l_tokens l) then Some (n, l_type l) else levelOf ls (Suc n) t)"

text \<open>
  Modelled from the spec: the role of a symbol is determined by whether it ever
  appears as a left-hand side of a production; a terminal never does.
\<close>

definition isTerminal :: "grammar \<Rightarrow> symbol \<Rightarrow> bool" where
  "isTerminal g s = (toStr s \<notin> set (map pr_type (productions g)))"

text \<open>
  Modelled from the spec: a production's effective precedence is its override if
  set, else the level of the rightmost terminal of its right-hand side, else no
  precedence.
\<close>

definition effectivePrecedence :: "grammar \<Rightarrow> production \<Rightarrow> nat option" where
  "effectivePrecedence g p =
    (case pr_prec p of
       Value t \<Rightarrow> map_option fst (levelOf (precedence g) 0 t)
     | _ \<Rightarrow>
        (case filter (isTerminal g) (rev (pr_production p)) of
           [] \<Rightarrow> None
         | t # _ \<Rightarrow> map_option fst (levelOf (precedence g) 0 (toStr t))))"

text \<open>The two ways a shift/reduce conflict can be decided.\<close>

datatype decision = Shift | Reduce

text \<open>
  Modelled from the spec: a shift/reduce conflict defaults to shift; it is resolved
  to reduce only if the reducing production has a declared effective level strictly
  higher than the incoming terminal's, or an equal level with \<open>LEFT\<close>; an equal level
  with \<open>RIGHT\<close> keeps the shift; an equal level with \<open>NONE\<close> raises a fatal grammar
  error.
\<close>

definition resolveShiftReduce :: "grammar \<Rightarrow> production \<Rightarrow> string \<Rightarrow> error + decision" where
  "resolveShiftReduce g p t =
    (case effectivePrecedence g p of
       None \<Rightarrow> Inr Shift
     | Some pl \<Rightarrow>
        (case levelOf (precedence g) 0 t of
           None \<Rightarrow> Inr Shift
         | Some ta \<Rightarrow>
            if fst ta < pl then Inr Reduce
            else if pl = fst ta
            then (case snd ta of
                    LEFT \<Rightarrow> Inr Reduce
                  | RIGHT \<Rightarrow> Inr Shift
                  | NONE \<Rightarrow> Inl (Error ''Grammar conflict''))
            else Inr Shift))"

text \<open>
  Modelled from the spec: the grammar-conflict error aborts table construction and
  yields no table. The construction of the automaton (\<open>generator.js\<close>) is not part
  of the sources: \<open>conflicts\<close> lists the shift/reduce conflicts it meets for a
  grammar, each the id of the reducing production and the incoming terminal, and
  the table is stood for by the decisions taken.
\<close>

fun resolveConflicts :: "grammar \<Rightarrow> (nat \<times> string) list \<Rightarrow> error + decision list" where
  "resolveConflicts g [] = Inr []"
| "resolveConflicts g (pt # cs) =
    (case element (productions g) (fst pt) of
       None \<Rightarrow> Inl (TypeError ''no such production'')
     | Some pr \<Rightarrow>
        (case resolveShiftReduce g pr (snd pt) of
           Inl err \<Rightarrow> Inl err
         | Inr d \<Rightarrow>
            (case resolveConflicts g cs of
               Inl err \<Rightarrow> Inl err
             | Inr ds \<Rightarrow> Inr (d # ds))))"

text \<open>
  Modelled from the spec: the builder, for the conflicts the construction meets; it
  leaves the grammar as it is and returns the decisions or the error.
\<close>

definition conflictBuilder :: "(grammar \<Rightarrow> (nat \<times> string) list) \<Rightarrow> decision list builder" where
  "conflictBuilder conflicts g debug = (g, resolveConflicts g (conflicts g))"

section \<open>Examples\<close>

text \<open>
  Stand-ins for the libraries, which hand every snippet through unchanged, and a
  small grammar with two precedence levels and one non-terminal, together with the
  heap \<open>toGrammar\<close> builds for it from the empty heap.
\<close>

definition echoLibs :: "string libs" where
  "echoLibs = \<lparr>ls_compile = Some, acorn_parse = Some\<rparr>"

definition sums :: "line list" where
  "sums =
    [PrecedenceLine (Some 1) KwLeft [''+''],
     PrecedenceLine (Some 2) KwNone [''unary''],
     Definition (Some 3) ''e''
       [ProductionLine (Some 4) [StringExpr ''n''] (Some ''+$[0]'') None,
        ProductionLine (Some 5) [Id ''e'', StringExpr ''+'', Id ''e''] None (Some ''unary'')]]"

definition sumsGrammar :: grammar where
  "sumsGrammar =
    \<lparr>productions =
       [\<lparr>pr_type = ''$$$'', pr_production = [Str ''e''], pr_prec = Undefined\<rparr>,
        \<lparr>pr_type = ''e'', pr_production = [Str ''n''], pr_prec = Null\<rparr>,
        \<lparr>pr_type = ''e'', pr_production = [Str ''e'', Str ''+'', Str ''e''],
          pr_prec = Value ''unary''\<rparr>],
     root = 0,
     precedence =
       [\<lparr>l_tokens = [''+''], l_type = LEFT\<rparr>, \<lparr>l_tokens = [''unary''], l_type = NONE\<rparr>]\<rparr>"

definition sumsActions :: "(nat \<times> (string, string) val) list" where
  "sumsActions =
    [(0, VAst ''function ($, $loc, $rule) {return do  => $[0]}''),
     (1, VAst ''function ($, $loc, $rule) {return do  => +$[0]}'')]"

definition sumsHeap :: "(string, string) heap" where
  "sumsHeap =
    [GrammarObj sumsGrammar, ActionsObj sumsActions, ImportsArray [],
     LinesArray [Some 3, Some 4, Some 5],
     Cold \<lparr>c_grammar = 0, c_actions = 1, c_dependencies = 2, c_sourceLineMappings = 3\<rparr>]"

text \<open>
  The heap \<open>toGrammar\<close> builds for the same input when the caller designates the
  root \<open>b\<close>: only the root production differs.
\<close>

definition rootedGrammar :: grammar where
  "rootedGrammar =
    \<lparr>productions =
       [\<lparr>pr_type = ''$$$'', pr_production = [Str ''b''], pr_prec = Undefined\<rparr>,
        \<lparr>pr_type = ''e'', pr_production = [Str ''n''], pr_prec = Null\<rparr>,
        \<lparr>pr_type = ''e'', pr_production = [Str ''e'', Str ''+'', Str ''e''],
          pr_prec = Value ''unary''\<rparr>],
     root = 0,
     precedence =
       [\<lparr>l_tokens = [''+''], l_type = LEFT\<rparr>, \<lparr>l_tokens = [''unary''], l_type = NONE\<rparr>]\<rparr>"

definition rootedHeap :: "(string, string) heap" where
  "rootedHeap =
    [GrammarObj rootedGrammar, ActionsObj sumsActions, ImportsArray [],
     LinesArray [Some 3, Some 4, Some 5],
     Cold \<lparr>c_grammar = 0, c_actions = 1, c_dependencies = 2, c_sourceLineMappings = 3\<rparr>]"

text \<open>
  A stand-in for \<open>escodegen\<close> and \<open>vm\<close>: the syntax tree of a function expression
  evaluates to that function; and the heap after \<open>cook\<close> on the cold grammar above.
\<close>

definition quote :: "(string, string) val \<Rightarrow> error + (string, string) val" where
  "quote v = (case v of VAst a \<Rightarrow> Inr (VFunction a) | _ \<Rightarrow> Inl (Error ''not an expression''))"

definition sumsCrane :: crane where
  "sumsCrane = \<lparr>c_grammar = 0, c_actions = 1, c_dependencies = 2, c_sourceLineMappings = 3\<rparr>"

definition cookedCrane :: crane where
  "cookedCrane = \<lparr>c_grammar = 0, c_actions = 5, c_dependencies = 2, c_sourceLineMappings = 3\<rparr>"

definition cookedActions :: "(nat \<times> (string, string) val) list" where
  "cookedActions =
    [(0, VFunction ''function ($, $loc, $rule) {return do  => $[0]}''),
     (1, VFunction ''function ($, $loc, $rule) {return do  => +$[0]}'')]"

definition cookedHeap :: "(string, string) heap" where
  "cookedHeap =
    sumsHeap @ [ActionsObj cookedActions, LinesArray [Some (- 1), Some (- 1), Some (- 1)],
                Hot cookedCrane (Some 4)]"

text \<open>
  A stand-in for a table builder: it appends an auxiliary production to the grammar
  it is handed and returns the number of productions as its table.
\<close>

definition countingBuilder :: "nat builder" where
  "countingBuilder g debug =
    (g\<lparr>productions := productions g
          @ [\<lparr>pr_type = ''$accept'', pr_production = [], pr_prec = Undefined\<rparr>]\<rparr>,
     Inr (length (productions g)))"

text \<open>
  A stand-in for the generated parser and the tokenizer: the input is cut into the
  two tokens \<open>[0, 1)\<close> and \<open>[1, 2)\<close> of the source, and the parser accepts one token
  and rejects the next.
\<close>

definition strictParser :: "nat parser" where
  "strictParser =
    \<lparr>newParser = (\<lambda>src. 0),
      push = (\<lambda>p t. if p = 0 then Inr 1 else Inl (Error ''Unexpected token'')),
      finish = (\<lambda>p. Inr []),
      tokenize = (\<lambda>src. ([\<lparr>t_source = src, t_range = [0, 1]\<rparr>,
                           \<lparr>t_source = src, t_range = [1, 2]\<rparr>], None))\<rparr>"

section \<open>\<open>getLoc\<close> is partial\<close>

lemma step_mk:
  "step \<lparr>line = ln, column = col\<rparr> c =
     (if c = CHR 0x0A then \<lparr>line = ln + 1, column = 0\<rparr> else \<lparr>line = ln, column = col + 1\<rparr>)"
  by (simp add: step_def)

lemma takeWhile_no_newline:
  "CHR 0x0A \<notin> set xs \<Longrightarrow> takeWhile (\<lambda>c. c \<noteq> CHR 0x0A) (rev xs) = rev xs"
  by (auto simp: takeWhile_eq_all_conv)

lemma getLocLoop_second:
  "getLocLoop cs [a, b] [p] ln col i =
     (if i \<le> b \<and> b < i + int (length cs)
      then Some (Some p, Some (foldl step \<lparr>line = ln, column = col\<rparr> (take (nat (b - i)) cs)))
      else None)"
proof (induction cs arbitrary: ln col i)
  case Nil
  then show ?case by simp
next
  case (Cons c cs)
  show ?case
  proof (cases "i = b")
    case True
    then show ?thesis by (simp add: element_def)
  next
    case False
    then have nohit: "element [a, b] (length [p]) \<noteq> Some i" by (simp add: element_def)
    consider (lt) "i < b" | (gt) "b < i" using False by linarith
    then show ?thesis
    proof cases
      case lt
      then have "nat (b - i) = Suc (nat (b - (i + 1)))" by linarith
      then have t: "take (nat (b - i)) (c # cs) = c # take (nat (b - (i + 1))) cs"
        by simp
      show ?thesis using lt False nohit
        by (simp add: Cons.IH t step_mk Let_def)
    next
      case gt
      then show ?thesis using False nohit by (simp add: Cons.IH Let_def)
    qed
  qed
qed

lemma getLocLoop_first:
  "getLocLoop cs [a, b] [] ln col i =
     (if i \<le> a \<and> a < b \<and> b < i + int (length cs)
      then Some (Some (foldl step \<lparr>line = ln, column = col\<rparr> (take (nat (a - i)) cs)),
                 Some (foldl step \<lparr>line = ln, column = col\<rparr> (take (nat (b - i)) cs)))
      else None)"
proof (induction cs arbitrary: ln col i)
  case Nil
  then show ?case by simp
next
  case (Cons c cs)
  show ?case
  proof (cases "i = a")
    case True
    have hit: "element [a, b] (length ([] :: position list)) = Some i"
      using True by (simp add: element_def)
    show ?thesis
    proof (cases "a < b")
      case lt: True
      then have "nat (b - a) = Suc (nat (b - (a + 1)))" by linarith
      then have t: "take (nat (b - a)) (c # cs) = c # take (nat (b - (a + 1))) cs"
        by simp
      show ?thesis using True lt hit
        by (simp add: getLocLoop_second t step_mk Let_def)
    next
      case False
      then show ?thesis using True hit
        by (simp add: getLocLoop_second Let_def)
    qed
  next
    case False
    then have nohit: "element [a, b] (length ([] :: position list)) \<noteq> Some i"
      by (simp add: element_def)
    consider (lt) "i < a" | (gt) "a < i" using False by linarith
    then show ?thesis
    proof cases
      case lt
      then have "nat (a - i) = Suc (nat (a - (i + 1)))" by linarith
      then have ta: "take (nat (a - i)) (c # cs) = c # take (nat (a - (i + 1))) cs"
        by simp
      show ?thesis
      proof (cases "a < b")
        case True
        with lt have "nat (b - i) = Suc (nat (b - (i + 1)))" by linarith
        then have tb: "take (nat (b - i)) (c # cs) = c # take (nat (b - (i + 1))) cs"
          by simp
        show ?thesis using lt True False nohit
          by (simp add: Cons.IH ta tb step_mk Let_def)
      next
        case False
        then show ?thesis using lt nohit by (simp add: Cons.IH Let_def)
      qed
    next
      case gt
      then show ?thesis using False nohit by (simp add: Cons.IH Let_def)
    qed
  qed
qed

lemma line_foldl_step:
  "line (foldl step p xs) = line p + int (count_list xs (CHR 0x0A))"
  by (induction xs arbitrary: p) (simp_all add: step_def)

lemma column_foldl_step:
  "column (foldl step p xs) =
     (if CHR 0x0A \<in> set xs then int (length (takeWhile (\<lambda>c. c \<noteq> CHR 0x0A) (rev xs)))
      else column p + int (length xs))"
proof (induction xs rule: rev_induct)
  case Nil
  then show ?case by simp
next
  case (snoc x xs)
  then show ?case by (simp add: step_def takeWhile_no_newline)
qed

lemma foldl_step_start:
  "foldl step \<lparr>line = 1, column = 0\<rparr> (take k src)
     = \<lparr>line = lineAt src k, column = columnAt src k\<rparr>"
proof -
  have "line (foldl step \<lparr>line = 1, column = 0\<rparr> (take k src)) = lineAt src k"
    by (simp add: line_foldl_step lineAt_def)
  moreover have "column (foldl step \<lparr>line = 1, column = 0\<rparr> (take k src)) = columnAt src k"
    by (simp add: column_foldl_step columnAt_def takeWhile_no_newline)
  ultimately show ?thesis
    by (cases "foldl step \<lparr>line = 1, column = 0\<rparr> (take k src)") simp
qed

lemma getLoc_two:
  "getLoc \<lparr>t_source = src, t_range = [a, b]\<rparr> =
     (if 0 \<le> a \<and> a < b \<and> b < int (length src)
      then Some (Some \<lparr>line = lineAt src (nat a), column = columnAt src (nat a)\<rparr>,
                 Some \<lparr>line = lineAt src (nat b), column = columnAt src (nat b)\<rparr>)
      else None)"
  by (simp add: getLoc_def getLocLoop_first foldl_step_start)


lemma pushAll_append:
  "pushAll psh p (pre @ ts) =
     (case pushAll psh p pre of Inl e \<Rightarrow> Inl e | Inr q \<Rightarrow> pushAll psh q ts)"
  by (induction pre arbitrary: p) (auto split: sum.splits option.splits)

text \<open>
  C10. \<open>getLoc({source, range})\<close> with two offsets returns a pair \<open>{start, end}\<close> only
  when both offsets are below the length of the source; the pair then holds the
  line and column of each offset (lines from 1, columns from 0, lines advanced and
  columns reset at each newline). When either offset is out of range it returns
  \<open>undefined\<close>, so that \<open>compile\<close>, catching a failed \<open>push\<close> of a token whose start
  offset is at or past the end of its source, throws a \<open>TypeError\<close> from reading
  \<open>.start\<close> of \<open>undefined\<close>.
\<close>

theorem getLoc_partial:
  "(getLoc \<lparr>t_source = src, t_range = [a, b]\<rparr> = Some (st, en) \<longrightarrow>
      a < int (length src) \<and> b < int (length src)
      \<and> st = Some \<lparr>line = lineAt src (nat a), column = columnAt src (nat a)\<rparr>
      \<and> en = Some \<lparr>line = lineAt src (nat b), column = columnAt src (nat b)\<rparr>
      \<and> 1 \<le> lineAt src (nat a) \<and> 0 \<le> columnAt src (nat a)
      \<and> 1 \<le> lineAt src (nat b) \<and> 0 \<le> columnAt src (nat b))
   \<and> (\<not> a' < int (length src') \<or> \<not> b' < int (length src') \<longrightarrow>
        getLoc \<lparr>t_source = src', t_range = [a', b']\<rparr> = None)
   \<and> (fst (tokenize prs (string @ [CHR 0x0A])) = pre @ tok # post
        \<and> pushAll (push prs) (newParser prs string) pre = Inr q
        \<and> push prs q tok = Inl e
        \<and> t_range tok = [s, t] \<and> int (length (t_source tok)) \<le> s \<longrightarrow>
        compile libs prs h string name additional
          = Inl (TypeError ''Cannot read properties of undefined (reading start)''))"
proof (intro conjI impI)
  assume "getLoc \<lparr>t_source = src, t_range = [a, b]\<rparr> = Some (st, en)"
  then have r: "0 \<le> a \<and> a < b \<and> b < int (length src)"
    and v: "Some (st, en) =
       Some (Some \<lparr>line = lineAt src (nat a), column = columnAt src (nat a)\<rparr>,
             Some \<lparr>line = lineAt src (nat b), column = columnAt src (nat b)\<rparr>)"
    by (simp_all add: getLoc_two split: if_splits)
  from r show "a < int (length src)" by simp
  from r show "b < int (length src)" by simp
  from v show "st = Some \<lparr>line = lineAt src (nat a), column = columnAt src (nat a)\<rparr>" by simp
  from v show "en = Some \<lparr>line = lineAt src (nat b), column = columnAt src (nat b)\<rparr>" by simp
  show "1 \<le> lineAt src (nat a)" "1 \<le> lineAt src (nat b)" by (simp_all add: lineAt_def)
  show "0 \<le> columnAt src (nat a)" "0 \<le> columnAt src (nat b)" by (simp_all add: columnAt_def)
next
  assume "\<not> a' < int (length src') \<or> \<not> b' < int (length src')"
  then show "getLoc \<lparr>t_source = src', t_range = [a', b']\<rparr> = None"
    by (auto simp: getLoc_two)
next
  assume h: "fst (tokenize prs (string @ [CHR 0x0A])) = pre @ tok # post
        \<and> pushAll (push prs) (newParser prs string) pre = Inr q
        \<and> push prs q tok = Inl e
        \<and> t_range tok = [s, t] \<and> int (length (t_source tok)) \<le> s"
  then have "tok = \<lparr>t_source = t_source tok, t_range = [s, t]\<rparr>" by (cases tok) simp
  then have "getLoc tok = getLoc \<lparr>t_source = t_source tok, t_range = [s, t]\<rparr>" by simp
  also have "\<dots> = None" using h by (simp add: getLoc_two)
  finally have "pushAll (push prs) q (tok # post)
      = Inl (TypeError ''Cannot read properties of undefined (reading start)'')"
    using h by simp
  then have "pushAll (push prs) (newParser prs string) (pre @ tok # post)
      = Inl (TypeError ''Cannot read properties of undefined (reading start)'')"
    using h by (simp add: pushAll_append)
  then show "compile libs prs h string name additional
          = Inl (TypeError ''Cannot read properties of undefined (reading start)'')"
    using h by (simp add: compile_def Let_def)
qed

theorem getLoc_partial_witness:
  "getLoc \<lparr>t_source = ''a'' @ [CHR 0x0A] @ ''bc'', t_range = [1, 3]\<rparr>
      = Some (Some \<lparr>line = 1, column = 1\<rparr>, Some \<lparr>line = 2, column = 1\<rparr>)
   \<and> lineAt (''a'' @ [CHR 0x0A] @ ''bc'') 3 = 2 \<and> columnAt (''a'' @ [CHR 0x0A] @ ''bc'') 3 = 1
   \<and> \<not> (4::int) < int (length (''a'' @ [CHR 0x0A] @ ''bc''))
   \<and> getLoc \<lparr>t_source = ''a'' @ [CHR 0x0A] @ ''bc'', t_range = [1, 4]\<rparr> = None
   \<and> compile \<lparr>ls_compile = Some, acorn_parse = Some\<rparr>
        \<lparr>newParser = (\<lambda>src. ()), push = (\<lambda>p t. Inl (Error ''Unexpected token'')),
          finish = (\<lambda>p. Inr []),
          tokenize = (\<lambda>src. ([\<lparr>t_source = src, t_range = [2, 3]\<rparr>], None))\<rparr>
        ([] :: (string, unit) heap) ''a'' None (\<lambda>n. None)
      = Inl (TypeError ''Cannot read properties of undefined (reading start)'')"
  using getLoc_partial
    [where src = "''a'' @ [CHR 0x0A] @ ''bc''" and a = 1 and b = 3
       and st = "Some \<lparr>line = 1, column = 1\<rparr>" and en = "Some \<lparr>line = 2, column = 1\<rparr>"
       and src' = "''a'' @ [CHR 0x0A] @ ''bc''" and a' = 1 and b' = 4
       and prs = "\<lparr>newParser = (\<lambda>src. ()), push = (\<lambda>p t. Inl (Error ''Unexpected token'')),
          finish = (\<lambda>p. Inr []),
          tokenize = (\<lambda>src. ([\<lparr>t_source = src, t_range = [2, 3]\<rparr>], None))\<rparr>"
       and string = "''a''" and pre = "[]" and post = "[]"
       and tok = "\<lparr>t_source = ''a'' @ [CHR 0x0A], t_range = [2, 3]\<rparr>"
       and q = "()" and e = "Error ''Unexpected token''" and s = 2 and t = 3
       and libs = "\<lparr>ls_compile = Some, acorn_parse = Some\<rparr>"
       and h = "[] :: (string, unit) heap" and name = None and additional = "\<lambda>n. None"]
  by (simp add: getLoc_def element_def lineAt_def columnAt_def)

section \<open>The collected list starts with the root production\<close>

lemma scanLine_list_kept:
  "scanLine r name vs ln s ps defs = Inr (s', ps', defs') \<Longrightarrow> s_list s \<noteq> []
     \<Longrightarrow> s_list s' = s_list s"
  by (cases ln) (auto simp: Let_def split: if_splits)

lemma scanBody_list_kept:
  "scanBody r name vs body s ps defs = Inr (s', ps', defs') \<Longrightarrow> s_list s \<noteq> []
     \<Longrightarrow> s_list s' = s_list s"
proof (induction body arbitrary: s ps defs)
  case Nil
  then show ?case by simp
next
  case (Cons ln body)
  from Cons.prems(1) obtain s1 ps1 defs1 where
    step: "scanLine r name vs ln
             (s\<lparr>s_sourceLine := (case loc ln of Some l \<Rightarrow> l | None \<Rightarrow> s_sourceLine s)\<rparr>)
             ps defs = Inr (s1, ps1, defs1)"
    and rest: "scanBody r name vs body s1 ps1 defs1 = Inr (s', ps', defs')"
    by (auto split: sum.splits)
  from scanLine_list_kept [OF step] Cons.prems(2) have "s_list s1 = s_list s" by simp
  with Cons.IH [OF rest] Cons.prems(2) show ?case by simp
qed

lemma scanLine_list_first:
  "scanLine r [] vs ln s ps defs = Inr (s', ps', defs') \<Longrightarrow> s_list s = []
     \<Longrightarrow> map extractor (s_list s') =
           (case ln of Definition l dname body \<Rightarrow> [rootProduction r dname] | _ \<Rightarrow> [])"
  by (cases ln) (auto simp: Let_def extractor_def rootProduction_def split: if_splits)

lemma scanBody_list_first:
  "scanBody r [] vs body s ps defs = Inr (s', ps', defs') \<Longrightarrow> s_list s = []
     \<Longrightarrow> firstDefinition body = Some nt
     \<Longrightarrow> map extractor (s_list s') = [rootProduction r nt]"
proof (induction body arbitrary: s ps defs)
  case Nil
  then show ?case by simp
next
  case (Cons ln body)
  from Cons.prems(1) obtain s1 ps1 defs1 where
    step: "scanLine r [] vs ln
             (s\<lparr>s_sourceLine := (case loc ln of Some l \<Rightarrow> l | None \<Rightarrow> s_sourceLine s)\<rparr>)
             ps defs = Inr (s1, ps1, defs1)"
    and rest: "scanBody r [] vs body s1 ps1 defs1 = Inr (s', ps', defs')"
    by (auto split: sum.splits)
  have first: "map extractor (s_list s1) =
           (case ln of Definition l dname body \<Rightarrow> [rootProduction r dname] | _ \<Rightarrow> [])"
    using scanLine_list_first [OF step] Cons.prems(2) by simp
  show ?case
  proof (cases ln)
    case (Definition l dname b)
    with first have one: "map extractor (s_list s1) = [rootProduction r dname]" by simp
    then have "s_list s1 \<noteq> []" by auto
    from scanBody_list_kept [OF rest this] one Definition Cons.prems(3) show ?thesis by simp
  next
    case (PrecedenceLine l kw toks)
    with first Cons.prems(3) Cons.IH [OF rest] show ?thesis by simp
  next
    case (ProductionLine l rhs code prec)
    with first Cons.prems(3) Cons.IH [OF rest] show ?thesis by simp
  next
    case (Import l payload)
    with first Cons.prems(3) Cons.IH [OF rest] show ?thesis by simp
  next
    case (OtherLine l)
    with first Cons.prems(3) Cons.IH [OF rest] show ?thesis by simp
  qed
qed

lemma reform_list_grows:
  "reform ctxt vs es s reformed = Inr (s', reformed') \<Longrightarrow> \<exists>ys. s_list s' = s_list s @ ys"
proof (induction ctxt vs es s reformed rule: reform.induct)
  case (3 ctxt vs fname args es s reformed)
  from "3.prems" obtain fn r where
    fn: "context' ctxt (s_sourceLine s) fname = Some fn"
    and r: "fn \<lparr>lc_i = s_i s, lc_lookup = lookup (s_store s) vs\<rparr> args = Inr r"
    and free: "lookup (s_store s) vs (toStr (handle r)) = None"
    and rest: "reform ctxt vs es (s\<lparr>s_i := counter r, s_list := s_list s @ pushed r\<rparr>)
                 (reformed @ [handle r]) = Inr (s', reformed')"
    by (auto split: option.splits sum.splits if_splits)
  from "3.IH" [OF fn r _ rest] free show ?case by auto
qed (auto simp: Let_def split: option.splits)

lemma processProductions_list_grows:
  "processProductions ctxt name vs ps s = Inr s' \<Longrightarrow> \<exists>ys. s_list s' = s_list s @ ys"
proof (induction ps arbitrary: s)
  case Nil
  then show ?case by simp
next
  case (Cons p ps)
  from Cons.prems obtain s1 reformed where
    one: "reform ctxt vs (p_production p) s [] = Inr (s1, reformed)"
    and rest: "processProductions ctxt name vs ps
          (s1\<lparr>s_list := s_list s1 @
                 [\<lparr>e_type = name, e_line = p_line p, e_production = reformed,
                   e_code = p_code p,
                   e_prec = (case p_prec p of Some x \<Rightarrow> Value x | None \<Rightarrow> Null)\<rparr>]\<rparr>) = Inr s'"
    by (auto split: sum.splits)
  from reform_list_grows [OF one] Cons.IH [OF rest] show ?case by auto
qed

lemma processQueue_list_grows:
  "processQueue r ctxt s q = Inr s' \<Longrightarrow> s_list s \<noteq> [] \<Longrightarrow> \<exists>ys. s_list s' = s_list s @ ys"
proof (induction r ctxt s q rule: processQueue.induct)
  case (1 r ctxt s)
  then show ?case by simp
next
  case (2 r ctxt s d defs)
  from "2.prems"(1) obtain s1 ps1 defs1 s2 where
    scan: "scanBody r (d_name d) (d_vars d) (d_body d) s [] defs = Inr (s1, ps1, defs1)"
    and prods: "processProductions ctxt (d_name d) (d_vars d) ps1 s1 = Inr s2"
    and rest: "processQueue r ctxt s2 defs1 = Inr s'"
    by (auto split: sum.splits)
  from scanBody_list_kept [OF scan "2.prems"(2)] have a: "s_list s1 = s_list s" .
  from processProductions_list_grows [OF prods] obtain ys where b: "s_list s2 = s_list s1 @ ys" ..
  with a "2.prems"(2) have "s_list s2 \<noteq> []" by simp
  from "2.IH" [OF scan refl refl prods rest this] a b show ?case by auto
qed

lemma collect_root:
  assumes "collect code rootName ctxt = Inr s" and "firstDefinition code = Some nt"
  shows "\<exists>rest. map extractor (s_list s) = rootProduction rootName nt # rest"
proof -
  from assms(1) obtain s1 ps1 defs1 s2 where
    scan: "scanBody rootName [] [0] code initial [] [] = Inr (s1, ps1, defs1)"
    and prods: "processProductions ctxt [] [0] ps1 s1 = Inr s2"
    and rest: "processQueue rootName ctxt s2 defs1 = Inr s"
    by (auto simp: collect_def split: sum.splits)
  have "s_list initial = []" by (simp add: initial_def)
  from scanBody_list_first [OF scan this assms(2)]
  have a: "map extractor (s_list s1) = [rootProduction rootName nt]" .
  from processProductions_list_grows [OF prods] obtain ys where b: "s_list s2 = s_list s1 @ ys" ..
  with a have "s_list s2 \<noteq> []" by auto
  from processQueue_list_grows [OF rest this] obtain zs where "s_list s = s_list s2 @ zs" ..
  with a b show ?thesis by simp
qed


lemma addSourceLineMapping_keeps:
  "addSourceLineMapping h cg i l = Inr h' \<Longrightarrow> objectAt h a = Some obj
     \<Longrightarrow> \<forall>xs. obj \<noteq> LinesArray xs \<Longrightarrow> objectAt h' a = Some obj"
  by (auto simp: addSourceLineMapping_def objectAt_def nth_list_update
           split: option.splits object.splits if_splits)

lemma addSourceLineMappings_keeps:
  "addSourceLineMappings h cg es i = Inr h' \<Longrightarrow> objectAt h a = Some obj
     \<Longrightarrow> \<forall>xs. obj \<noteq> LinesArray xs \<Longrightarrow> objectAt h' a = Some obj"
proof (induction es arbitrary: h i)
  case Nil
  then show ?case by simp
next
  case (Cons e es)
  from Cons.prems(1) obtain h1 where
    one: "addSourceLineMapping h cg i (e_line e) = Inr h1"
    and rest: "addSourceLineMappings h1 cg es (Suc i) = Inr h'"
    by (auto split: sum.splits)
  from addSourceLineMapping_keeps [OF one Cons.prems(2) Cons.prems(3)]
  have "objectAt h1 a = Some obj" .
  from Cons.IH [OF rest this Cons.prems(3)] show ?case .
qed

lemma toGrammar_result:
  assumes "toGrammar libs h code rootName ctxt = Inr (h', cg)"
  shows "\<exists>s acts c.
           collect code rootName ctxt = Inr s
         \<and> compileActions libs (s_list s) 0 [] = Inr acts
         \<and> objectAt h' cg = Some (Cold c)
         \<and> objectAt h' (c_grammar c)
             = Some (GrammarObj \<lparr>productions = map extractor (s_list s), root = 0,
                                  precedence = s_precedence s\<rparr>)
         \<and> objectAt h' (c_actions c) = Some (ActionsObj acts)
         \<and> objectAt h' (c_dependencies c) = Some (ImportsArray (s_dependencies s))"
proof -
  from assms obtain s where s: "collect code rootName ctxt = Inr s"
    by (auto simp: toGrammar_def split: sum.splits)
  from assms s obtain acts :: "(nat \<times> ('a, 'b) val) list"
    where acts: "compileActions libs (s_list s) 0 [] = Inr acts"
    by (auto simp: toGrammar_def split: sum.splits)
  define gr where "gr = \<lparr>productions = map extractor (s_list s), root = 0,
                          precedence = s_precedence s\<rparr>"
  define h3 where "h3 = h @ [GrammarObj gr, ActionsObj acts, ImportsArray (s_dependencies s)]"
  define c where "c = \<lparr>c_grammar = length h, c_actions = Suc (length h),
                        c_dependencies = Suc (Suc (length h)),
                        c_sourceLineMappings = length h3\<rparr>"
  define h4 where "h4 = h3 @ [LinesArray (replicate (length (productions gr)) (Some (- 1))), Cold c]"
  have new: "newCraneGrammar Cold h3 (length h) (Suc (length h)) (Suc (Suc (length h)))
               = Inr (h4, Suc (length h3))"
    by (simp add: newCraneGrammar_def objectAt_def alloc_def h3_def h4_def c_def nth_append)
  from assms s acts new have fin: "addSourceLineMappings h4 (Suc (length h3)) (s_list s) 0 = Inr h'"
    and cg: "cg = Suc (length h3)"
    by (auto simp: toGrammar_def alloc_def Let_def gr_def h3_def split: sum.splits)
  have "objectAt h4 cg = Some (Cold c)"
    by (simp add: objectAt_def h4_def cg nth_append)
  from addSourceLineMappings_keeps [OF fin this] have 1: "objectAt h' cg = Some (Cold c)" by simp
  have "objectAt h4 (c_grammar c) = Some (GrammarObj gr)"
    by (simp add: objectAt_def h4_def h3_def c_def nth_append)
  from addSourceLineMappings_keeps [OF fin this]
  have 2: "objectAt h' (c_grammar c) = Some (GrammarObj gr)" by simp
  have "objectAt h4 (c_actions c) = Some (ActionsObj acts)"
    by (simp add: objectAt_def h4_def h3_def c_def nth_append)
  from addSourceLineMappings_keeps [OF fin this]
  have 3: "objectAt h' (c_actions c) = Some (ActionsObj acts)" by simp
  have "objectAt h4 (c_dependencies c) = Some (ImportsArray (s_dependencies s))"
    by (simp add: objectAt_def h4_def h3_def c_def nth_append)
  from addSourceLineMappings_keeps [OF fin this]
  have 4: "objectAt h' (c_dependencies c) = Some (ImportsArray (s_dependencies s))" by simp
  from s acts 1 2 3 4 show ?thesis unfolding gr_def by blast
qed

lemma firstDefinition_exists:
  "Definition l n b \<in> set code \<Longrightarrow> \<exists>nt. firstDefinition code = Some nt"
  by (induction code rule: firstDefinition.induct) auto

lemma toGrammar_sums:
  "toGrammar echoLibs [] sums None (\<lambda>n. None) = Inr (sumsHeap, 4)"
  by (simp add: sums_def sumsHeap_def sumsGrammar_def sumsActions_def echoLibs_def
        toGrammar_def collect_def initial_def Let_def assign_def objectCreate_def
        compileLS_def alloc_def newCraneGrammar_def objectAt_def addSourceLineMapping_def
        arraySet_def extractor_def orElse_def tableAt_def)

lemma toGrammar_sums_rooted:
  "toGrammar echoLibs [] sums (Some ''b'') (\<lambda>n. None) = Inr (rootedHeap, 4)"
  by (simp add: sums_def rootedHeap_def rootedGrammar_def sumsActions_def echoLibs_def
        toGrammar_def collect_def initial_def Let_def assign_def objectCreate_def
        compileLS_def alloc_def newCraneGrammar_def objectAt_def addSourceLineMapping_def
        arraySet_def extractor_def orElse_def tableAt_def)

text \<open>
  C2. When the top-level body of the input holds at least one definition and
  \<open>toGrammar\<close> returns, the grammar of the result has root index 0 and its production
  0 is the synthetic root production \<open>$$$\<close>, whose right-hand side is exactly one
  symbol: the root name \<open>r\<close> when the caller designates one (a non-empty string), and
  the name of the first definition of the input when none is supplied (\<open>null\<close> or
  the empty string).
\<close>

theorem toGrammar_root:
  assumes "Definition l n b \<in> set code"
    and "toGrammar libs h code rootName ctxt = Inr (h', cg)"
  shows "\<exists>nt c g start rest.
           firstDefinition code = Some nt
         \<and> objectAt h' cg = Some (Cold c)
         \<and> objectAt h' (c_grammar c) = Some (GrammarObj g)
         \<and> root g = 0
         \<and> productions g =
             \<lparr>pr_type = ''$$$'', pr_production = [Str start], pr_prec = Undefined\<rparr> # rest
         \<and> (\<forall>r. rootName = Some r \<and> r \<noteq> [] \<longrightarrow> start = r)
         \<and> (rootName = None \<or> rootName = Some [] \<longrightarrow> start = nt)"
proof -
  from firstDefinition_exists [OF assms(1)] obtain nt where nt: "firstDefinition code = Some nt" ..
  from toGrammar_result [OF assms(2)] obtain s c where
    s: "collect code rootName ctxt = Inr s"
    and c: "objectAt h' cg = Some (Cold c)"
    and g: "objectAt h' (c_grammar c)
             = Some (GrammarObj \<lparr>productions = map extractor (s_list s), root = 0,
                                  precedence = s_precedence s\<rparr>)"
    by blast
  from collect_root [OF s nt] obtain rest where
    list: "map extractor (s_list s) = rootProduction rootName nt # rest" ..
  define start where "start = orElse rootName nt"
  have designated: "\<forall>r. rootName = Some r \<and> r \<noteq> [] \<longrightarrow> start = r"
    by (simp add: start_def orElse_def)
  have first: "rootName = None \<or> rootName = Some [] \<longrightarrow> start = nt"
    by (auto simp: start_def orElse_def)
  from list have "productions \<lparr>productions = map extractor (s_list s), root = 0,
                                precedence = s_precedence s\<rparr> =
             \<lparr>pr_type = ''$$$'', pr_production = [Str start], pr_prec = Undefined\<rparr> # rest"
    by (simp add: rootProduction_def start_def)
  with nt c g designated first show ?thesis
    by (intro exI [of _ nt] exI [of _ c] exI [of _ start] exI [of _ rest]
          exI [of _ "\<lparr>productions = map extractor (s_list s), root = 0,
                       precedence = s_precedence s\<rparr>"]) simp
qed

theorem toGrammar_root_witness:
  "Definition (Some 3) ''e''
       [ProductionLine (Some 4) [StringExpr ''n''] (Some ''+$[0]'') None,
        ProductionLine (Some 5) [Id ''e'', StringExpr ''+'', Id ''e''] None (Some ''unary'')]
      \<in> set sums
   \<and> firstDefinition sums = Some ''e''
   \<and> toGrammar echoLibs [] sums (Some ''b'') (\<lambda>n. None) = Inr (rootedHeap, 4)
   \<and> (\<exists>c g rest.
           objectAt rootedHeap 4 = Some (Cold c)
         \<and> objectAt rootedHeap (c_grammar c) = Some (GrammarObj g)
         \<and> root g = 0
         \<and> productions g =
             \<lparr>pr_type = ''$$$'', pr_production = [Str ''b''], pr_prec = Undefined\<rparr> # rest)
   \<and> toGrammar echoLibs [] sums None (\<lambda>n. None) = Inr (sumsHeap, 4)
   \<and> (\<exists>c g rest.
           objectAt sumsHeap 4 = Some (Cold c)
         \<and> objectAt sumsHeap (c_grammar c) = Some (GrammarObj g)
         \<and> root g = 0
         \<and> productions g =
             \<lparr>pr_type = ''$$$'', pr_production = [Str ''e''], pr_prec = Undefined\<rparr> # rest)"
proof -
  have a: "Definition (Some 3) ''e''
       [ProductionLine (Some 4) [StringExpr ''n''] (Some ''+$[0]'') None,
        ProductionLine (Some 5) [Id ''e'', StringExpr ''+'', Id ''e''] None (Some ''unary'')]
      \<in> set sums"
    by (simp add: sums_def)
  have f: "firstDefinition sums = Some ''e''" by (simp add: sums_def)
  from toGrammar_root [OF a toGrammar_sums_rooted] f
  have designated: "\<exists>c g rest.
           objectAt rootedHeap 4 = Some (Cold c)
         \<and> objectAt rootedHeap (c_grammar c) = Some (GrammarObj g)
         \<and> root g = 0
         \<and> productions g =
             \<lparr>pr_type = ''$$$'', pr_production = [Str ''b''], pr_prec = Undefined\<rparr> # rest"
    by auto
  from toGrammar_root [OF a toGrammar_sums] f
  have first: "\<exists>c g rest.
           objectAt sumsHeap 4 = Some (Cold c)
         \<and> objectAt sumsHeap (c_grammar c) = Some (GrammarObj g)
         \<and> root g = 0
         \<and> productions g =
             \<lparr>pr_type = ''$$$'', pr_production = [Str ''e''], pr_prec = Undefined\<rparr> # rest"
    by auto
  from a f toGrammar_sums_rooted designated toGrammar_sums first show ?thesis by blast
qed

section \<open>The action table is keyed by production id\<close>

lemma map_of_objSet: "map_of (objSet k v kvs) = (map_of kvs)(k \<mapsto> v)"
  by (induction kvs) (auto simp: fun_eq_iff)

lemma compileActions_table:
  "compileActions libs es i obj = Inr acts \<Longrightarrow>
     map_of acts k =
       (if i \<le> k \<and> k < i + length es
        then (case e_code (es ! (k - i)) of
                None \<Rightarrow> map_of obj k
              | Some c \<Rightarrow>
                 if c = [] then map_of obj k
                 else (case compileLS libs c [] of Inr ast \<Rightarrow> Some (VAst ast) | Inl e \<Rightarrow> None))
        else map_of obj k)"
proof (induction es arbitrary: i obj)
  case Nil
  then show ?case by auto
next
  case (Cons e es)
  show ?case
  proof (cases "e_code e")
    case None
    with Cons.prems have rest: "compileActions libs es (Suc i) obj = Inr acts" by simp
    show ?thesis
      using Cons.IH [OF rest] None
      by (cases "k = i") (auto simp: nth_Cons' Suc_diff_le split: option.splits)
  next
    case (Some c)
    show ?thesis
    proof (cases "c = []")
      case True
      with Some Cons.prems have rest: "compileActions libs es (Suc i) obj = Inr acts" by simp
      show ?thesis
        using Cons.IH [OF rest] Some True
        by (cases "k = i") (auto simp: nth_Cons' Suc_diff_le split: option.splits)
    next
      case False
      with Some Cons.prems obtain ast where
        ast: "compileLS libs c [] = Inr ast"
        and rest: "compileActions libs es (Suc i) (objSet i (VAst ast) obj) = Inr acts"
        by (auto split: sum.splits)
      show ?thesis
        using Cons.IH [OF rest] Some False ast
        by (cases "k = i") (auto simp: nth_Cons' Suc_diff_le map_of_objSet split: option.splits)
    qed
  qed
qed

lemma compileActions_compiles:
  "compileActions libs es j obj = Inr acts \<Longrightarrow> j \<le> i \<Longrightarrow> i - j < length es
     \<Longrightarrow> e_code (es ! (i - j)) = Some c \<Longrightarrow> c \<noteq> []
     \<Longrightarrow> \<exists>ast. compileLS libs c [] = Inr ast"
proof (induction es arbitrary: j obj)
  case Nil
  then show ?case by simp
next
  case (Cons e es)
  show ?case
  proof (cases "i = j")
    case True
    with Cons.prems show ?thesis by (auto split: sum.splits)
  next
    case False
    with Cons.prems have lt: "Suc j \<le> i" by simp
    from Cons.prems(1) obtain obj' where
      rest: "compileActions libs es (Suc j) obj' = Inr acts"
      by (auto split: option.splits if_splits sum.splits)
    from lt Cons.prems have "i - Suc j < length es" "e_code (es ! (i - Suc j)) = Some c"
      by (auto simp: nth_Cons' Suc_diff_le split: if_splits)
    from Cons.IH [OF rest lt this Cons.prems(5)] show ?thesis .
  qed
qed

text \<open>
  C4. In the cold crane grammar that \<open>toGrammar\<close> returns, the action table has an
  entry exactly under the indices of the collected list whose entry carries a
  truthy snippet, the entry under such an index is the compiled snippet of that
  list entry, and the productions of the grammar are the list entries in the same
  order, each reduced to its type, production and prec: action key \<open>i\<close> belongs to
  production \<open>i\<close>.
\<close>

theorem toGrammar_actions:
  assumes "toGrammar libs h code rootName ctxt = Inr (h', cg)"
  shows "\<exists>s c g acts.
           collect code rootName ctxt = Inr s
         \<and> objectAt h' cg = Some (Cold c)
         \<and> objectAt h' (c_grammar c) = Some (GrammarObj g)
         \<and> objectAt h' (c_actions c) = Some (ActionsObj acts)
         \<and> productions g = map extractor (s_list s)
         \<and> (\<forall>i. (map_of acts i \<noteq> None) = (i < length (s_list s) \<and> truthy (e_code (s_list s ! i))))
         \<and> (\<forall>i c. i < length (s_list s) \<and> e_code (s_list s ! i) = Some c \<and> c \<noteq> [] \<longrightarrow>
               (\<exists>ast. compileLS libs c [] = Inr ast \<and> map_of acts i = Some (VAst ast)))"
proof -
  from toGrammar_result [OF assms] obtain s acts c where
    s: "collect code rootName ctxt = Inr s"
    and acts: "compileActions libs (s_list s) 0 [] = Inr acts"
    and c: "objectAt h' cg = Some (Cold c)"
    and g: "objectAt h' (c_grammar c)
             = Some (GrammarObj \<lparr>productions = map extractor (s_list s), root = 0,
                                  precedence = s_precedence s\<rparr>)"
    and a: "objectAt h' (c_actions c) = Some (ActionsObj acts)"
    by blast
  note tab = compileActions_table [OF acts]
  have compiled: "\<exists>ast. compileLS libs c [] = Inr ast \<and> map_of acts i = Some (VAst ast)"
    if "i < length (s_list s)" "e_code (s_list s ! i) = Some c" "c \<noteq> []" for i c
  proof -
    from compileActions_compiles [OF acts, of i c] that
    obtain ast where "compileLS libs c [] = Inr ast" by auto
    with tab [of i] that show ?thesis by simp
  qed
  have keys: "(map_of acts i \<noteq> None) = (i < length (s_list s) \<and> truthy (e_code (s_list s ! i)))"
    for i
  proof (cases "i < length (s_list s)")
    case False
    with tab [of i] show ?thesis by simp
  next
    case True
    show ?thesis
    proof (cases "e_code (s_list s ! i)")
      case None
      with tab [of i] True show ?thesis by (simp add: truthy_def)
    next
      case (Some c)
      show ?thesis
      proof (cases "c = []")
        case True
        with tab [of i] Some \<open>i < length (s_list s)\<close> show ?thesis by (simp add: truthy_def)
      next
        case False
        from compiled [OF \<open>i < length (s_list s)\<close> Some False] Some False
          \<open>i < length (s_list s)\<close>
        show ?thesis by (auto simp: truthy_def)
      qed
    qed
  qed
  from s c g a keys compiled show ?thesis by auto
qed

theorem toGrammar_actions_witness:
  "toGrammar echoLibs [] sums None (\<lambda>n. None) = Inr (sumsHeap, 4)
   \<and> (\<exists>s c g acts.
           collect sums None (\<lambda>n. None) = Inr s
         \<and> objectAt sumsHeap 4 = Some (Cold c)
         \<and> objectAt sumsHeap (c_grammar c) = Some (GrammarObj g)
         \<and> objectAt sumsHeap (c_actions c) = Some (ActionsObj (acts :: (nat \<times> (string, string) val) list))
         \<and> productions g = map extractor (s_list s)
         \<and> (\<forall>i. (map_of acts i \<noteq> None) = (i < length (s_list s) \<and> truthy (e_code (s_list s ! i))))
         \<and> (\<forall>i c. i < length (s_list s) \<and> e_code (s_list s ! i) = Some c \<and> c \<noteq> [] \<longrightarrow>
               (\<exists>ast. compileLS echoLibs c [] = Inr ast \<and> map_of acts i = Some (VAst ast))))"
  using toGrammar_sums toGrammar_actions [OF toGrammar_sums] by blast

section \<open>Precedence declarations\<close>

lemma scanBody_precedence:
  "scanBody r name vs body s ps defs = Inr (s', ps', defs') \<Longrightarrow>
     s_precedence s' = s_precedence s @ (if name = [] then declaredLevels body else [])"
proof (induction body arbitrary: s ps defs)
  case Nil
  then show ?case by simp
next
  case (Cons ln body)
  from Cons.prems obtain s1 ps1 defs1 where
    step: "scanLine r name vs ln
             (s\<lparr>s_sourceLine := (case loc ln of Some l \<Rightarrow> l | None \<Rightarrow> s_sourceLine s)\<rparr>)
             ps defs = Inr (s1, ps1, defs1)"
    and rest: "scanBody r name vs body s1 ps1 defs1 = Inr (s', ps', defs')"
    by (auto split: sum.splits)
  from step have "s_precedence s1 =
      s_precedence s @ (if name = [] then declaredLevels [ln] else [])"
    by (cases ln; cases "name = []")
       (auto simp: Let_def split: if_splits assocKeyword.splits elim!: precedenceMapper.elims)
  with Cons.IH [OF rest] show ?case by (cases ln) auto
qed

lemma scanBody_queue:
  "scanBody r name vs body s ps defs = Inr (s', ps', defs') \<Longrightarrow>
     \<exists>new. defs' = defs @ new \<and> map (\<lambda>d. (d_name d, d_body d)) new = children name body"
proof (induction body arbitrary: s ps defs)
  case Nil
  then show ?case by simp
next
  case (Cons ln body)
  from Cons.prems obtain s1 ps1 defs1 where
    step: "scanLine r name vs ln
             (s\<lparr>s_sourceLine := (case loc ln of Some l \<Rightarrow> l | None \<Rightarrow> s_sourceLine s)\<rparr>)
             ps defs = Inr (s1, ps1, defs1)"
    and rest: "scanBody r name vs body s1 ps1 defs1 = Inr (s', ps', defs')"
    by (auto split: sum.splits)
  from step have "\<exists>new. defs1 = defs @ new
      \<and> map (\<lambda>d. (d_name d, d_body d)) new = children name [ln]"
    by (cases ln) (auto simp: Let_def split: if_splits)
  then obtain new1 where a: "defs1 = defs @ new1"
    and b: "map (\<lambda>d. (d_name d, d_body d)) new1 = children name [ln]" by blast
  from Cons.IH [OF rest] obtain new2 where c: "defs' = defs1 @ new2"
    and d: "map (\<lambda>d. (d_name d, d_body d)) new2 = children name body" by blast
  have "children name (ln # body) = children name [ln] @ children name body"
    by (cases ln) auto
  with a b c d show ?case by auto
qed

lemma reform_precedence:
  "reform ctxt vs es s reformed = Inr (s', reformed') \<Longrightarrow> s_precedence s' = s_precedence s"
proof (induction ctxt vs es s reformed rule: reform.induct)
  case (3 ctxt vs fname args es s reformed)
  from "3.prems" obtain fn r where
    fn: "context' ctxt (s_sourceLine s) fname = Some fn"
    and r: "fn \<lparr>lc_i = s_i s, lc_lookup = lookup (s_store s) vs\<rparr> args = Inr r"
    and free: "lookup (s_store s) vs (toStr (handle r)) = None"
    and rest: "reform ctxt vs es (s\<lparr>s_i := counter r, s_list := s_list s @ pushed r\<rparr>)
                 (reformed @ [handle r]) = Inr (s', reformed')"
    by (auto split: option.splits sum.splits if_splits)
  from "3.IH" [OF fn r _ rest] free show ?case by auto
qed (auto simp: Let_def split: option.splits)

lemma processProductions_precedence:
  "processProductions ctxt name vs ps s = Inr s' \<Longrightarrow> s_precedence s' = s_precedence s"
proof (induction ps arbitrary: s)
  case Nil
  then show ?case by simp
next
  case (Cons p ps)
  from Cons.prems obtain s1 reformed where
    one: "reform ctxt vs (p_production p) s [] = Inr (s1, reformed)"
    and rest: "processProductions ctxt name vs ps
          (s1\<lparr>s_list := s_list s1 @
                 [\<lparr>e_type = name, e_line = p_line p, e_production = reformed,
                   e_code = p_code p,
                   e_prec = (case p_prec p of Some x \<Rightarrow> Value x | None \<Rightarrow> Null)\<rparr>]\<rparr>) = Inr s'"
    by (auto split: sum.splits)
  from reform_precedence [OF one] Cons.IH [OF rest] show ?case by auto
qed

lemma queued_child:
  "map (\<lambda>d. (d_name d, d_body d)) new = ch \<Longrightarrow> d \<in> set new \<Longrightarrow> (d_name d, d_body d) \<in> set ch"
  by force

lemma child_queued:
  "map (\<lambda>d. (d_name d, d_body d)) new = ch \<Longrightarrow> (n, b) \<in> set ch
     \<Longrightarrow> \<exists>d \<in> set new. d_name d = n \<and> d_body d = b"
  by force

lemma children_named:
  "name \<noteq> [] \<Longrightarrow> (n, b) \<in> set (children name body) \<Longrightarrow> n \<noteq> []"
  by (induction name body rule: children.induct) auto

lemma processQueue_precedence:
  "processQueue r ctxt s q = Inr s' \<Longrightarrow> \<forall>d \<in> set q. d_name d \<noteq> []
     \<Longrightarrow> s_precedence s' = s_precedence s"
proof (induction r ctxt s q rule: processQueue.induct)
  case (1 r ctxt s)
  then show ?case by simp
next
  case (2 r ctxt s d defs)
  from "2.prems"(1) obtain s1 ps1 defs1 s2 where
    scan: "scanBody r (d_name d) (d_vars d) (d_body d) s [] defs = Inr (s1, ps1, defs1)"
    and prods: "processProductions ctxt (d_name d) (d_vars d) ps1 s1 = Inr s2"
    and rest: "processQueue r ctxt s2 defs1 = Inr s'"
    by (auto split: sum.splits)
  from "2.prems"(2) have named: "d_name d \<noteq> []" by simp
  from scanBody_precedence [OF scan] named have a: "s_precedence s1 = s_precedence s" by simp
  from processProductions_precedence [OF prods] have b: "s_precedence s2 = s_precedence s1" .
  from scanBody_queue [OF scan] obtain new where new: "defs1 = defs @ new"
    and ch: "map (\<lambda>d. (d_name d, d_body d)) new = children (d_name d) (d_body d)" by blast
  have "\<forall>d' \<in> set new. d_name d' \<noteq> []"
  proof
    fix d' assume "d' \<in> set new"
    from queued_child [OF ch this] children_named [OF named] show "d_name d' \<noteq> []" by blast
  qed
  with new "2.prems"(2) have "\<forall>d \<in> set defs1. d_name d \<noteq> []" by auto
  from "2.IH" [OF scan refl refl prods rest this] a b show ?case by simp
qed

lemma children_top:
  "(n, b) \<in> set (children [] code) \<Longrightarrow> \<exists>l. Definition l n b \<in> set code"
  by (induction "[] :: string" code rule: children.induct) auto

lemma collect_precedence:
  assumes "collect code rootName ctxt = Inr s"
    and "list_all namedDefinition code"
  shows "s_precedence s = declaredLevels code"
proof -
  from assms(1) obtain s1 ps1 defs1 s2 where
    scan: "scanBody rootName [] [0] code initial [] [] = Inr (s1, ps1, defs1)"
    and prods: "processProductions ctxt [] [0] ps1 s1 = Inr s2"
    and rest: "processQueue rootName ctxt s2 defs1 = Inr s"
    by (auto simp: collect_def split: sum.splits)
  from scanBody_precedence [OF scan] have a: "s_precedence s1 = declaredLevels code"
    by (simp add: initial_def)
  from processProductions_precedence [OF prods] have b: "s_precedence s2 = s_precedence s1" .
  from scanBody_queue [OF scan] obtain new where "defs1 = [] @ new"
    and "map (\<lambda>d. (d_name d, d_body d)) new = children [] code" by blast
  then have ch: "map (\<lambda>d. (d_name d, d_body d)) defs1 = children [] code" by simp
  have "\<forall>d \<in> set defs1. d_name d \<noteq> []"
  proof
    fix d assume "d \<in> set defs1"
    from queued_child [OF ch this] have "(d_name d, d_body d) \<in> set (children [] code)" .
    from children_top [OF this] obtain l where "Definition l (d_name d) (d_body d) \<in> set code" ..
    moreover from assms(2) have "\<forall>x \<in> set code. namedDefinition x"
      by (simp add: list_all_iff)
    ultimately have "namedDefinition (Definition l (d_name d) (d_body d))" by blast
    then show "d_name d \<noteq> []" by simp
  qed
  from processQueue_precedence [OF rest this] a b show ?thesis by simp
qed

lemma scanBody_named_no_precedence:
  "scanBody r name vs body s ps defs = Inr (s', ps', defs') \<Longrightarrow> name \<noteq> []
     \<Longrightarrow> ln \<in> set body \<Longrightarrow> declaresPrecedence ln
     \<Longrightarrow> \<exists>n b. (n, b) \<in> set (children name body) \<and> list_ex declaresPrecedence b"
proof (induction body arbitrary: s ps defs)
  case Nil
  then show ?case by simp
next
  case (Cons x body)
  from Cons.prems(1) obtain s1 ps1 defs1 where
    step: "scanLine r name vs x
             (s\<lparr>s_sourceLine := (case loc x of Some l \<Rightarrow> l | None \<Rightarrow> s_sourceLine s)\<rparr>)
             ps defs = Inr (s1, ps1, defs1)"
    and rest: "scanBody r name vs body s1 ps1 defs1 = Inr (s', ps', defs')"
    by (auto split: sum.splits)
  show ?case
  proof (cases "ln = x")
    case True
    with step Cons.prems(2) Cons.prems(4) show ?thesis
      by (cases x) auto
  next
    case False
    with Cons.prems(3) have "ln \<in> set body" by simp
    from Cons.IH [OF rest Cons.prems(2) this Cons.prems(4)] show ?thesis
      by (cases x) auto
  qed
qed

lemma processQueue_rejects:
  "\<exists>d \<in> set q. d_name d \<noteq> [] \<and> list_ex declaresPrecedence (d_body d)
     \<Longrightarrow> \<exists>err. processQueue r ctxt s q = Inl err"
proof (induction r ctxt s q rule: processQueue.induct)
  case (1 r ctxt s)
  then show ?case by simp
next
  case (2 r ctxt s d defs)
  show ?case
  proof (cases "scanBody r (d_name d) (d_vars d) (d_body d) s [] defs")
    case (Inl err)
    then show ?thesis by simp
  next
    case (Inr x)
    then obtain s1 ps1 defs1 where
      scan: "scanBody r (d_name d) (d_vars d) (d_body d) s [] defs = Inr (s1, ps1, defs1)"
      by (cases x) auto
    show ?thesis
    proof (cases "processProductions ctxt (d_name d) (d_vars d) ps1 s1")
      case (Inl err)
      with scan show ?thesis by simp
    next
      case (Inr s2)
      from scanBody_queue [OF scan] obtain new where new: "defs1 = defs @ new"
        and ch: "map (\<lambda>d. (d_name d, d_body d)) new = children (d_name d) (d_body d)" by blast
      from "2.prems" obtain bad where bad: "bad \<in> set (d # defs)" "d_name bad \<noteq> []"
        "list_ex declaresPrecedence (d_body bad)" by blast
      have "\<exists>d' \<in> set defs1. d_name d' \<noteq> [] \<and> list_ex declaresPrecedence (d_body d')"
      proof (cases "bad = d")
        case False
        with bad new show ?thesis by auto
      next
        case True
        with bad obtain ln where "ln \<in> set (d_body d)" "declaresPrecedence ln"
          by (auto simp: list_ex_iff)
        from scanBody_named_no_precedence [OF scan _ this] bad True
        obtain n b where nb: "(n, b) \<in> set (children (d_name d) (d_body d))"
          "list_ex declaresPrecedence b" by auto
        from child_queued [OF ch nb(1)] obtain d' where "d' \<in> set new" "d_name d' = n" "d_body d' = b"
          by blast
        with nb children_named [of "d_name d" n b "d_body d"] bad True new show ?thesis by auto
      qed
      from "2.IH" [OF scan refl refl Inr this] scan Inr show ?thesis by simp
    qed
  qed
qed

lemma children_of_definition:
  "Definition l n b \<in> set body \<Longrightarrow>
     (name @ (if name = [] then [] else ''.'') @ n, b) \<in> set (children name body)"
  by (induction name body rule: children.induct) auto

lemma collect_rejects:
  assumes "Definition l n b \<in> set code" and "n \<noteq> []" and "list_ex declaresPrecedence b"
  shows "\<exists>err. collect code rootName ctxt = Inl err"
proof (cases "scanBody rootName [] [0] code initial [] []")
  case (Inl err)
  then show ?thesis by (simp add: collect_def)
next
  case (Inr x)
  then obtain s1 ps1 defs1 where
    scan: "scanBody rootName [] [0] code initial [] [] = Inr (s1, ps1, defs1)"
    by (cases x) auto
  show ?thesis
  proof (cases "processProductions ctxt [] [0] ps1 s1")
    case (Inl err)
    with scan show ?thesis by (simp add: collect_def)
  next
    case (Inr s2)
    from scanBody_queue [OF scan] obtain new where "defs1 = [] @ new"
      and "map (\<lambda>d. (d_name d, d_body d)) new = children [] code" by blast
    then have ch: "map (\<lambda>d. (d_name d, d_body d)) defs1 = children [] code" by simp
    from children_of_definition [OF assms(1), of "[]"] have "(n, b) \<in> set (children [] code)"
      by simp
    from child_queued [OF ch this] obtain d where "d \<in> set defs1" "d_name d = n" "d_body d = b"
      by blast
    with assms(2,3)
    have "\<exists>d \<in> set defs1. d_name d \<noteq> [] \<and> list_ex declaresPrecedence (d_body d)"
      by blast
    from processQueue_rejects [OF this, of rootName ctxt s2] obtain err where
      "processQueue rootName ctxt s2 defs1 = Inl err" ..
    with scan Inr show ?thesis by (simp add: collect_def)
  qed
qed

text \<open>
  C5. \<open>toGrammar\<close> collects the precedence declarations of the input into the
  precedence list of the grammar in the order of the input (lowest level first),
  each level with the declared token values and with its associativity mapped
  \<open>left\<close> to \<open>LEFT\<close>, \<open>right\<close> to \<open>RIGHT\<close>, \<open>none\<close> to \<open>NONE\<close>; and an input in which a
  named scope holds a precedence declaration, at any depth, is rejected with an
  error and yields no grammar. The first half is for inputs whose top-level
  definitions are named, as every identifier of the DSL is.
\<close>

theorem toGrammar_precedence:
  "(toGrammar libs h code rootName ctxt = Inr (h', cg) \<and> list_all namedDefinition code \<longrightarrow>
      (\<exists>c g. objectAt h' cg = Some (Cold c)
            \<and> objectAt h' (c_grammar c) = Some (GrammarObj g)
            \<and> precedence g = declaredLevels code))
   \<and> (Definition l n b \<in> set code' \<and> n \<noteq> [] \<and> list_ex declaresPrecedence b \<longrightarrow>
        (\<exists>err. toGrammar libs h code' rootName ctxt = Inl err))"
proof (intro conjI impI)
  assume a: "toGrammar libs h code rootName ctxt = Inr (h', cg) \<and> list_all namedDefinition code"
  from toGrammar_result [of libs h code rootName ctxt h' cg] a obtain s c where
    s: "collect code rootName ctxt = Inr s"
    and c: "objectAt h' cg = Some (Cold c)"
    and g: "objectAt h' (c_grammar c)
             = Some (GrammarObj \<lparr>productions = map extractor (s_list s), root = 0,
                                  precedence = s_precedence s\<rparr>)"
    by blast
  from collect_precedence [OF s] a have "s_precedence s = declaredLevels code" by blast
  with c g show "\<exists>c g. objectAt h' cg = Some (Cold c)
            \<and> objectAt h' (c_grammar c) = Some (GrammarObj g)
            \<and> precedence g = declaredLevels code"
    by simp
next
  assume "Definition l n b \<in> set code' \<and> n \<noteq> [] \<and> list_ex declaresPrecedence b"
  then obtain err where "collect code' rootName ctxt = Inl err"
    using collect_rejects [of l n b code' rootName ctxt] by blast
  then show "\<exists>err. toGrammar libs h code' rootName ctxt = Inl err"
    by (simp add: toGrammar_def)
qed

theorem toGrammar_precedence_witness:
  "toGrammar echoLibs [] sums None (\<lambda>n. None) = Inr (sumsHeap, 4)
   \<and> list_all namedDefinition sums
   \<and> (\<exists>c g. objectAt sumsHeap 4 = Some (Cold c)
            \<and> objectAt sumsHeap (c_grammar c) = Some (GrammarObj g)
            \<and> precedence g = declaredLevels sums)
   \<and> declaredLevels sums
        = [\<lparr>l_tokens = [''+''], l_type = LEFT\<rparr>, \<lparr>l_tokens = [''unary''], l_type = NONE\<rparr>]
   \<and> Definition (Some 1) ''e'' [PrecedenceLine (Some 2) KwLeft [''+'']]
        \<in> set [Definition (Some 1) ''e'' [PrecedenceLine (Some 2) KwLeft [''+'']]]
   \<and> ''e'' \<noteq> []
   \<and> list_ex declaresPrecedence [PrecedenceLine (Some 2) KwLeft [''+'']]
   \<and> (\<exists>err. toGrammar echoLibs ([] :: (string, string) heap)
               [Definition (Some 1) ''e'' [PrecedenceLine (Some 2) KwLeft [''+'']]]
               None (\<lambda>n. None) = Inl err)"
proof -
  have named: "list_all namedDefinition sums" by (simp add: sums_def)
  have levels: "declaredLevels sums
        = [\<lparr>l_tokens = [''+''], l_type = LEFT\<rparr>, \<lparr>l_tokens = [''unary''], l_type = NONE\<rparr>]"
    by (simp add: sums_def)
  have nested: "Definition (Some 1) ''e'' [PrecedenceLine (Some 2) KwLeft [''+'']]
        \<in> set [Definition (Some 1) ''e'' [PrecedenceLine (Some 2) KwLeft [''+'']]]
     \<and> ''e'' \<noteq> [] \<and> list_ex declaresPrecedence [PrecedenceLine (Some 2) KwLeft [''+'']]"
    by simp
  from toGrammar_sums named levels nested
    toGrammar_precedence
      [of echoLibs "[]" sums None "\<lambda>n. None" sumsHeap 4 "Some 1" "''e''"
          "[PrecedenceLine (Some 2) KwLeft [''+'']]"
          "[Definition (Some 1) ''e'' [PrecedenceLine (Some 2) KwLeft [''+'']]]"]
  show ?thesis by blast
qed

section \<open>Cooking a cold crane grammar\<close>

lemma objSet_keys:
  "list_all (\<lambda>kv. fst kv < Suc n) xs \<Longrightarrow> list_all (\<lambda>kv. fst kv < Suc n) (objSet n v xs)"
  by (induction xs) auto

lemma digit_cases:
  "d < 10 \<Longrightarrow> d = 0 \<or> d = 1 \<or> d = 2 \<or> d = 3 \<or> d = 4 \<or> d = 5 \<or> d = 6 \<or> d = 7 \<or> d = 8 \<or> d = (9::nat)"
  by arith

lemma digitChar_digit:
  assumes "d < 10"
  shows "isDigit (digitChar d)" and "digitValue (digitChar d) = d"
    and "\<not> isWhite (digitChar d)" and "digitChar d \<noteq> CHR ''-''" and "digitChar d \<noteq> CHR ''+''"
  using digit_cases [OF assms]
  by (auto simp: isDigit_def digitChar_def digitValue_def isWhite_def)

lemma decimal_nonempty: "decimal n \<noteq> []"
  by (subst decimal.simps) simp

lemma decimal_digits: "list_all isDigit (decimal n)"
proof (induction n rule: decimal.induct)
  case (1 n)
  show ?case
  proof (cases "n < 10")
    case True
    then show ?thesis by (subst decimal.simps) (simp add: digitChar_digit)
  next
    case False
    with "1.IH" show ?thesis
      by (subst decimal.simps) (simp add: digitChar_digit)
  qed
qed

lemma decimal_value: "foldl (\<lambda>acc c. 10 * acc + digitValue c) 0 (decimal n) = n"
proof (induction n rule: decimal.induct)
  case (1 n)
  show ?case
  proof (cases "n < 10")
    case True
    then show ?thesis by (subst decimal.simps) (simp add: digitChar_digit)
  next
    case False
    with "1.IH" show ?thesis
      by (subst decimal.simps) (simp add: digitChar_digit)
  qed
qed

lemma parseInt_decimal: "parseInt (decimal n) = Some (int n)"
proof -
  from decimal_nonempty [of n] obtain c cs where cs: "decimal n = c # cs"
    by (cases "decimal n") auto
  with decimal_digits [of n] have "isDigit c" by simp
  then have c: "\<not> isWhite c" "c \<noteq> CHR ''-''" "c \<noteq> CHR ''+''"
    by (auto simp: isDigit_def isWhite_def)
  have all: "takeWhile isDigit (decimal n) = decimal n"
    using decimal_digits [of n] by (simp add: takeWhile_eq_all_conv list_all_iff)
  have "dropWhile isWhite (decimal n) = decimal n" using cs c by simp
  then show ?thesis
    using cs c all decimal_value [of n] by (simp add: parseInt_def Let_def)
qed

lemma runInNewContext_table:
  "distinct (map fst kvs) \<Longrightarrow> list_all (\<lambda>kv. succeeds evaluate (snd kv)) kvs \<Longrightarrow>
     \<exists>obj'. runInNewContext evaluate
              (map (\<lambda>kv. \<lparr>prop_key = Some (int (fst kv)), prop_value = snd kv\<rparr>) kvs) obj = Inr obj'
          \<and> (\<forall>n. map_of obj' n =
                 (case map_of kvs n of None \<Rightarrow> map_of obj n | Some a \<Rightarrow> evaluated evaluate (Some a)))"
proof (induction kvs arbitrary: obj)
  case Nil
  then show ?case by simp
next
  case (Cons kv kvs)
  obtain k v where kv: "kv = (k, v)" by (cases kv)
  from Cons.prems kv obtain w where w: "evaluate v = Inr w"
    by (auto simp: succeeds_def split: sum.splits)
  from Cons.prems have d: "distinct (map fst kvs)"
    and e: "list_all (\<lambda>kv. succeeds evaluate (snd kv)) kvs" by simp_all
  from Cons.IH [OF d e, of "objSet k w obj"] obtain obj' where
    run: "runInNewContext evaluate
              (map (\<lambda>kv. \<lparr>prop_key = Some (int (fst kv)), prop_value = snd kv\<rparr>) kvs)
              (objSet k w obj) = Inr obj'"
    and tab: "\<forall>n. map_of obj' n =
                 (case map_of kvs n of None \<Rightarrow> map_of (objSet k w obj) n
                  | Some a \<Rightarrow> evaluated evaluate (Some a))"
    by blast
  from Cons.prems(1) kv have fresh: "map_of kvs k = None"
    by (simp add: map_of_eq_None_iff)
  have "\<forall>n. map_of obj' n =
                 (case map_of (kv # kvs) n of None \<Rightarrow> map_of obj n
                  | Some a \<Rightarrow> evaluated evaluate (Some a))"
    using tab fresh kv w by (auto simp: map_of_objSet evaluated_def split: option.splits)
  with run kv w show ?case by simp
qed

lemma cook_result:
  assumes "objectAt h this = Some (Cold c)"
    and "objectAt h (c_grammar c) = Some (GrammarObj g)"
    and "objectAt h (c_actions c) = Some (ActionsObj kvs)"
    and "distinct (map fst kvs)"
    and "list_all (\<lambda>kv. succeeds evaluate (snd kv)) kvs"
  shows "\<exists>kvs'.
           cook evaluate h this
            = Inr (h @ [ActionsObj kvs',
                        LinesArray (replicate (length (productions g)) (Some (- 1))),
                        Hot \<lparr>c_grammar = c_grammar c, c_actions = length h,
                              c_dependencies = c_dependencies c,
                              c_sourceLineMappings = c_sourceLineMappings c\<rparr> (Some this)],
                   Suc (Suc (length h)))
         \<and> (\<forall>n. map_of kvs' n = evaluated evaluate (map_of kvs n))"
proof -
  have ast: "getActionAST h this =
      Inr (map (\<lambda>kv. \<lparr>prop_key = Some (int (fst kv)), prop_value = snd kv\<rparr>) kvs)"
    using assms(1,3) by (simp add: getActionAST_def parseInt_decimal)
  from runInNewContext_table [OF assms(4,5), of "[]"] obtain kvs' where
    run: "runInNewContext evaluate
              (map (\<lambda>kv. \<lparr>prop_key = Some (int (fst kv)), prop_value = snd kv\<rparr>) kvs) [] = Inr kvs'"
    and tab: "\<forall>n. map_of kvs' n =
                 (case map_of kvs n of None \<Rightarrow> map_of [] n
                  | Some a \<Rightarrow> evaluated evaluate (Some a))"
    by blast
  from assms(2) have gl: "c_grammar c < length h" and gv: "h ! c_grammar c = GrammarObj g"
    by (auto simp: objectAt_def split: if_splits)
  have "cook evaluate h this
            = Inr (h @ [ActionsObj kvs',
                        LinesArray (replicate (length (productions g)) (Some (- 1))),
                        Hot \<lparr>c_grammar = c_grammar c, c_actions = length h,
                              c_dependencies = c_dependencies c,
                              c_sourceLineMappings = c_sourceLineMappings c\<rparr> (Some this)],
                   Suc (Suc (length h)))"
    using assms(1) ast run gl gv
    by (simp add: cook_def alloc_def newCraneGrammar_def objectAt_def nth_append
          list_update_append)
  moreover have "\<forall>n. map_of kvs' n = evaluated evaluate (map_of kvs n)"
    using tab by (auto simp: evaluated_def split: option.splits)
  ultimately show ?thesis by blast
qed

text \<open>
  The keys of an action table stay ids of productions: \<open>toGrammar\<close> builds such a
  table, with one entry per key, and \<open>cook\<close> keeps the keys.
\<close>

lemma objSet_fst: "fst ` set (objSet k v kvs) = insert k (fst ` set kvs)"
proof (induction kvs)
  case Nil
  then show ?case by simp
next
  case (Cons x kvs)
  obtain k' v' where x: "x = (k', v')" by (cases x)
  consider (eq) "k = k'" | (lt) "k < k'" | (gt) "k' < k" by linarith
  then show ?case
  proof cases
    case eq
    with x show ?thesis by simp
  next
    case lt
    with x show ?thesis by simp
  next
    case gt
    then have "objSet k v (x # kvs) = x # objSet k v kvs" using x by simp
    with Cons.IH show ?thesis by auto
  qed
qed

lemma objSet_ascending:
  "sorted_wrt (<) (map fst kvs) \<Longrightarrow> sorted_wrt (<) (map fst (objSet k v kvs))"
proof (induction kvs)
  case Nil
  then show ?case by simp
next
  case (Cons x kvs)
  obtain k' v' where x: "x = (k', v')" by (cases x)
  from Cons.prems x have above: "\<forall>y \<in> fst ` set kvs. k' < y" and rest: "sorted_wrt (<) (map fst kvs)"
    by auto
  consider (eq) "k = k'" | (lt) "k < k'" | (gt) "k' < k" by linarith
  then show ?case
  proof cases
    case eq
    with x Cons.prems show ?thesis by simp
  next
    case lt
    with above have "\<forall>y \<in> fst ` set kvs. k < y" by auto
    with lt x Cons.prems show ?thesis by auto
  next
    case gt
    with above have "\<forall>y \<in> fst ` set (objSet k v kvs). k' < y"
      by (simp add: objSet_fst)
    with gt x Cons.IH [OF rest] show ?thesis by auto
  qed
qed

lemma compileActions_ascending:
  "compileActions libs es i obj = Inr acts \<Longrightarrow> sorted_wrt (<) (map fst obj)
     \<Longrightarrow> sorted_wrt (<) (map fst acts)"
proof (induction es arbitrary: i obj)
  case Nil
  then show ?case by simp
next
  case (Cons e es)
  from Cons.prems(1) obtain obj' where
    rest: "compileActions libs es (Suc i) obj' = Inr acts"
    and step: "obj' = obj \<or> (\<exists>v. obj' = objSet i v obj)"
    by (auto split: option.splits if_splits sum.splits)
  from step Cons.prems(2) have "sorted_wrt (<) (map fst obj')"
    by (auto simp: objSet_ascending)
  from Cons.IH [OF rest this] show ?case .
qed

lemma toGrammar_table:
  assumes "toGrammar libs h code rootName ctxt = Inr (h', cg)"
  shows "\<exists>c g acts.
           objectAt h' cg = Some (Cold c)
         \<and> objectAt h' (c_grammar c) = Some (GrammarObj g)
         \<and> objectAt h' (c_actions c) = Some (ActionsObj acts)
         \<and> distinct (map fst acts)
         \<and> list_all (\<lambda>kv. fst kv < length (productions g)) acts"
proof -
  from toGrammar_result [OF assms] obtain s :: state and acts :: "(nat \<times> ('a, 'b) val) list"
      and c where
    acts: "compileActions libs (s_list s) 0 [] = Inr acts"
    and c: "objectAt h' cg = Some (Cold c)"
    and g: "objectAt h' (c_grammar c)
             = Some (GrammarObj \<lparr>productions = map extractor (s_list s), root = 0,
                                  precedence = s_precedence s\<rparr>)"
    and a: "objectAt h' (c_actions c) = Some (ActionsObj acts)"
    by blast
  from compileActions_ascending [OF acts] have "sorted_wrt (<) (map fst acts)" by simp
  then have d: "distinct (map fst acts)"
    by (simp add: strict_sorted_iff)
  have "fst kv < length (s_list s)" if "kv \<in> set acts" for kv
  proof -
    from that have "map_of acts (fst kv) \<noteq> None"
      by (simp add: map_of_eq_None_iff image_iff) force
    with compileActions_table [OF acts, of "fst kv"] show ?thesis
      by (auto split: if_splits)
  qed
  then have "list_all (\<lambda>kv. fst kv < length (s_list s)) acts"
    by (simp add: list_all_iff)
  with c g a d show ?thesis by simp
qed

lemma cook_keeps_keys:
  assumes "objectAt h this = Some (Cold c)"
    and "objectAt h (c_grammar c) = Some (GrammarObj g)"
    and "objectAt h (c_actions c) = Some (ActionsObj kvs)"
    and "distinct (map fst kvs)"
    and "list_all (\<lambda>kv. succeeds evaluate (snd kv)) kvs"
    and "list_all (\<lambda>kv. fst kv < length (productions g)) kvs"
    and "cook evaluate h this = Inr (h', cooked)"
    and "objectAt h' cooked = Some (Hot k origin)"
    and "objectAt h' (c_actions k) = Some (ActionsObj kvs')"
  shows "list_all (\<lambda>kv. fst kv < length (productions g)) kvs'"
proof -
  from cook_result [OF assms(1-5)] assms(7) obtain new where
    h': "h' = h @ [ActionsObj new,
                   LinesArray (replicate (length (productions g)) (Some (- 1))),
                   Hot \<lparr>c_grammar = c_grammar c, c_actions = length h,
                         c_dependencies = c_dependencies c,
                         c_sourceLineMappings = c_sourceLineMappings c\<rparr> (Some this)]"
    and cooked: "cooked = Suc (Suc (length h))"
    and tab: "\<forall>n. map_of new n = evaluated evaluate (map_of kvs n)"
    by auto
  from assms(8) h' cooked have "c_actions k = length h"
    by (auto simp: objectAt_def nth_append)
  with assms(9) h' have new: "kvs' = new" by (simp add: objectAt_def nth_append)
  have "fst kv < length (productions g)" if "kv \<in> set kvs'" for kv
  proof -
    from that have "map_of kvs' (fst kv) \<noteq> None"
      by (simp add: map_of_eq_None_iff image_iff) force
    with tab new have "map_of kvs (fst kv) \<noteq> None"
      by (auto simp: evaluated_def split: option.splits)
    then obtain v where "(fst kv, v) \<in> set kvs" by (auto dest: map_of_SomeD)
    with assms(6) show ?thesis by (auto simp: list_all_iff)
  qed
  then show ?thesis by (simp add: list_all_iff)
qed

lemma sumsHeap_objects:
  "objectAt sumsHeap 4 = Some (Cold sumsCrane)"
  "objectAt sumsHeap (c_grammar sumsCrane) = Some (GrammarObj sumsGrammar)"
  "objectAt sumsHeap (c_actions sumsCrane) = Some (ActionsObj sumsActions)"
  by (simp_all add: sumsHeap_def sumsCrane_def objectAt_def)

lemma cookedHeap_objects:
  "objectAt cookedHeap 7 = Some (Hot cookedCrane (Some 4))"
  "objectAt cookedHeap (c_grammar cookedCrane) = Some (GrammarObj sumsGrammar)"
  "objectAt cookedHeap (c_actions cookedCrane) = Some (ActionsObj cookedActions)"
  by (simp_all add: cookedHeap_def sumsHeap_def cookedCrane_def objectAt_def)

lemma cook_sums: "cook quote sumsHeap 4 = Inr (cookedHeap, 7)"
proof -
  have "parseInt (decimal 0) = Some 0" "parseInt (decimal 1) = Some 1"
    using parseInt_decimal [of 0] parseInt_decimal [of 1] by simp_all
  then show ?thesis
    by (simp add: cook_def getActionAST_def sumsHeap_def cookedHeap_def sumsGrammar_def
          sumsActions_def cookedActions_def cookedCrane_def quote_def objectAt_def alloc_def
          newCraneGrammar_def)
qed

text \<open>
  C7. \<open>cook()\<close> of a cold crane grammar \<open>c\<close> whose actions all evaluate returns a new
  hot crane grammar and changes no object that existed before, \<open>c\<close> and everything
  it refers to included. The new object refers to the same grammar, dependencies
  and line mappings as \<open>c\<close>, has \<open>c\<close> as its origin, and its actions are a new table
  that holds, under each key of \<open>c\<close>'s table and under no other, the value the
  action under that key evaluates to.
\<close>

theorem cook_transition:
  assumes "objectAt h this = Some (Cold c)"
    and "objectAt h (c_grammar c) = Some (GrammarObj g)"
    and "objectAt h (c_actions c) = Some (ActionsObj kvs)"
    and "distinct (map fst kvs)"
    and "list_all (\<lambda>kv. succeeds evaluate (snd kv)) kvs"
  shows "\<exists>h' cooked k kvs'.
           cook evaluate h this = Inr (h', cooked)
         \<and> take (length h) h' = h
         \<and> length h \<le> cooked
         \<and> objectAt h' cooked = Some (Hot k (Some this))
         \<and> c_grammar k = c_grammar c
         \<and> c_dependencies k = c_dependencies c
         \<and> c_sourceLineMappings k = c_sourceLineMappings c
         \<and> length h \<le> c_actions k
         \<and> objectAt h' (c_actions k) = Some (ActionsObj kvs')
         \<and> (\<forall>n. map_of kvs' n = evaluated evaluate (map_of kvs n))"
proof -
  from cook_result [OF assms] obtain kvs' where
    run: "cook evaluate h this
            = Inr (h @ [ActionsObj kvs',
                        LinesArray (replicate (length (productions g)) (Some (- 1))),
                        Hot \<lparr>c_grammar = c_grammar c, c_actions = length h,
                              c_dependencies = c_dependencies c,
                              c_sourceLineMappings = c_sourceLineMappings c\<rparr> (Some this)],
                   Suc (Suc (length h)))"
    and tab: "\<forall>n. map_of kvs' n = evaluated evaluate (map_of kvs n)"
    by blast
  define k where "k = \<lparr>c_grammar = c_grammar c, c_actions = length h,
                        c_dependencies = c_dependencies c,
                        c_sourceLineMappings = c_sourceLineMappings c\<rparr>"
  define h' where "h' = h @ [ActionsObj kvs',
                            LinesArray (replicate (length (productions g)) (Some (- 1))),
                            Hot k (Some this)]"
  from run have "cook evaluate h this = Inr (h', Suc (Suc (length h)))"
    by (simp add: h'_def k_def)
  with tab show ?thesis
    by (intro exI [of _ h'] exI [of _ "Suc (Suc (length h))"] exI [of _ k] exI [of _ kvs'])
       (simp add: h'_def k_def objectAt_def nth_append)
qed

theorem cook_transition_witness:
  "objectAt sumsHeap 4 = Some (Cold sumsCrane)
   \<and> objectAt sumsHeap (c_grammar sumsCrane) = Some (GrammarObj sumsGrammar)
   \<and> objectAt sumsHeap (c_actions sumsCrane) = Some (ActionsObj sumsActions)
   \<and> distinct (map fst sumsActions)
   \<and> list_all (\<lambda>kv. succeeds quote (snd kv)) sumsActions
   \<and> (\<exists>h' cooked k kvs'.
           cook quote sumsHeap 4 = Inr (h', cooked)
         \<and> take (length sumsHeap) h' = sumsHeap
         \<and> length sumsHeap \<le> cooked
         \<and> objectAt h' cooked = Some (Hot k (Some 4))
         \<and> c_grammar k = c_grammar sumsCrane
         \<and> c_dependencies k = c_dependencies sumsCrane
         \<and> c_sourceLineMappings k = c_sourceLineMappings sumsCrane
         \<and> length sumsHeap \<le> c_actions k
         \<and> objectAt h' (c_actions k) = Some (ActionsObj kvs')
         \<and> (\<forall>n. map_of kvs' n = evaluated quote (map_of sumsActions n)))"
proof -
  have d: "distinct (map fst sumsActions)" by (simp add: sumsActions_def)
  have e: "list_all (\<lambda>kv. succeeds quote (snd kv)) sumsActions"
    by (simp add: sumsActions_def succeeds_def quote_def)
  from sumsHeap_objects d e cook_transition [OF sumsHeap_objects d e]
  show ?thesis by blast
qed

section \<open>Augmenting a hot crane grammar\<close>

text \<open>
  C1. \<open>augment(nt, tokens, action)\<close> on a hot crane grammar appends one production to
  its grammar. With a function for \<open>action\<close> it stores that action in the action
  table under the id of the new production, the number of productions before the
  append, so that the production resolves by it. With anything else the action
  table is left as it was: no entry is added, and the new production, having no
  entry in a table whose keys are ids of productions, resolves to the default (the
  first symbol's value, or an empty sequence for an empty right-hand side). The
  keys of the table stay ids of productions.
\<close>

theorem augment_action:
  assumes "objectAt h this = Some (Hot c origin)"
    and "objectAt h (c_grammar c) = Some (GrammarObj g)"
    and "objectAt h (c_actions c) = Some (ActionsObj kvs)"
  shows "\<exists>h' g' kvs'.
           augment h this nt tokens action = Inr h'
         \<and> objectAt h' (c_grammar c) = Some (GrammarObj g')
         \<and> productions g' =
             productions g @ [\<lparr>pr_type = nt, pr_production = tokens, pr_prec = Undefined\<rparr>]
         \<and> objectAt h' (c_actions c) = Some (ActionsObj kvs')
         \<and> (isFunction action \<longrightarrow>
               map_of kvs' = (map_of kvs)(length (productions g) \<mapsto> action)
             \<and> resolution kvs' (length (productions g)) (productions g' ! length (productions g))
                 = ByAction action)
         \<and> (\<not> isFunction action \<longrightarrow> kvs' = kvs)
         \<and> (\<not> isFunction action \<and> list_all (\<lambda>kv. fst kv < length (productions g)) kvs \<longrightarrow>
               resolution kvs' (length (productions g)) (productions g' ! length (productions g))
                 = (if tokens = [] then EmptySequence else FirstSymbolValue))
         \<and> (list_all (\<lambda>kv. fst kv < length (productions g)) kvs \<longrightarrow>
               list_all (\<lambda>kv. fst kv < length (productions g')) kvs')"
proof -
  from assms(2) have gl: "c_grammar c < length h" and gv: "h ! c_grammar c = GrammarObj g"
    by (auto simp: objectAt_def split: if_splits)
  from assms(3) have al: "c_actions c < length h" and av: "h ! c_actions c = ActionsObj kvs"
    by (auto simp: objectAt_def split: if_splits)
  from gv av have ne: "c_actions c \<noteq> c_grammar c" by auto
  define g' where "g' = g\<lparr>productions := productions g
                     @ [\<lparr>pr_type = nt, pr_production = tokens, pr_prec = Undefined\<rparr>]\<rparr>"
  show ?thesis
  proof (cases "isFunction action")
    case True
    then have act: "(if action = VUndefined then VNull else action) = action"
      by (cases action) auto
    define kvs' where "kvs' = objSet (length (productions g)) action kvs"
    define h' where "h' = h[c_actions c := ActionsObj kvs', c_grammar c := GrammarObj g']"
    have run: "augment h this nt tokens action = Inr h'"
      using assms True act
      by (simp add: augment_def Let_def addProduction_def h'_def kvs'_def g'_def)
    have a: "objectAt h' (c_grammar c) = Some (GrammarObj g')"
      using gl by (simp add: h'_def objectAt_def)
    have b: "objectAt h' (c_actions c) = Some (ActionsObj kvs')"
      using al ne by (simp add: h'_def objectAt_def)
    have m: "map_of kvs' = (map_of kvs)(length (productions g) \<mapsto> action)"
      by (simp add: kvs'_def map_of_objSet)
    have keys: "list_all (\<lambda>kv. fst kv < length (productions g)) kvs \<longrightarrow>
               list_all (\<lambda>kv. fst kv < length (productions g')) kvs'"
    proof
      assume old: "list_all (\<lambda>kv. fst kv < length (productions g)) kvs"
      from old have "list_all (\<lambda>kv. fst kv < Suc (length (productions g))) kvs"
        by (auto simp: list_all_iff)
      from objSet_keys [OF this] show "list_all (\<lambda>kv. fst kv < length (productions g')) kvs'"
        by (simp add: kvs'_def g'_def)
    qed
    from run a b m keys True show ?thesis
      by (intro exI [of _ h'] exI [of _ g'] exI [of _ kvs'])
         (simp add: g'_def resolution_def)
  next
    case False
    define h' where "h' = h[c_grammar c := GrammarObj g']"
    have run: "augment h this nt tokens action = Inr h'"
      using assms False
      by (cases action) (simp_all add: augment_def Let_def addProduction_def h'_def g'_def)
    have a: "objectAt h' (c_grammar c) = Some (GrammarObj g')"
      using gl by (simp add: h'_def objectAt_def)
    have b: "objectAt h' (c_actions c) = Some (ActionsObj kvs)"
      using al av ne by (simp add: h'_def objectAt_def)
    have none: "list_all (\<lambda>kv. fst kv < length (productions g)) kvs
                  \<Longrightarrow> map_of kvs (length (productions g)) = None"
      by (auto simp: list_all_iff map_of_eq_None_iff)
    have keys: "list_all (\<lambda>kv. fst kv < length (productions g)) kvs \<longrightarrow>
               list_all (\<lambda>kv. fst kv < length (productions g')) kvs"
      by (auto simp: list_all_iff g'_def)
    from run a b none keys False show ?thesis
      by (intro exI [of _ h'] exI [of _ g'] exI [of _ kvs])
         (auto simp: g'_def resolution_def)
  qed
qed

theorem augment_action_witness:
  "objectAt cookedHeap 7 = Some (Hot cookedCrane (Some 4))
   \<and> objectAt cookedHeap (c_grammar cookedCrane) = Some (GrammarObj sumsGrammar)
   \<and> objectAt cookedHeap (c_actions cookedCrane) = Some (ActionsObj cookedActions)
   \<and> isFunction (VFunction ''function ($) { return $[1] }'' :: (string, string) val)
   \<and> list_all (\<lambda>kv. fst kv < length (productions sumsGrammar)) cookedActions
   \<and> (\<exists>h' g' kvs'.
           augment cookedHeap 7 ''e'' [Str ''('', Str ''e'', Str '')'']
             (VFunction ''function ($) { return $[1] }'') = Inr h'
         \<and> objectAt h' (c_grammar cookedCrane) = Some (GrammarObj g')
         \<and> productions g' =
             productions sumsGrammar
               @ [\<lparr>pr_type = ''e'', pr_production = [Str ''('', Str ''e'', Str '')''],
                    pr_prec = Undefined\<rparr>]
         \<and> objectAt h' (c_actions cookedCrane) = Some (ActionsObj kvs')
         \<and> map_of kvs' = (map_of cookedActions)
               (length (productions sumsGrammar) \<mapsto> VFunction ''function ($) { return $[1] }'')
         \<and> resolution kvs' (length (productions sumsGrammar))
               (productions g' ! length (productions sumsGrammar))
               = ByAction (VFunction ''function ($) { return $[1] }'')
         \<and> list_all (\<lambda>kv. fst kv < length (productions g')) kvs')
   \<and> \<not> isFunction (VNull :: (string, string) val)
   \<and> (\<exists>h' g' kvs'.
           augment cookedHeap 7 ''e'' [] VNull = Inr h'
         \<and> objectAt h' (c_grammar cookedCrane) = Some (GrammarObj g')
         \<and> productions g' =
             productions sumsGrammar @ [\<lparr>pr_type = ''e'', pr_production = [], pr_prec = Undefined\<rparr>]
         \<and> objectAt h' (c_actions cookedCrane) = Some (ActionsObj kvs')
         \<and> kvs' = cookedActions
         \<and> resolution kvs' (length (productions sumsGrammar))
               (productions g' ! length (productions sumsGrammar)) = EmptySequence)"
proof -
  have keys: "list_all (\<lambda>kv. fst kv < length (productions sumsGrammar)) cookedActions"
    by (simp add: cookedActions_def sumsGrammar_def)
  have f: "isFunction (VFunction ''function ($) { return $[1] }'' :: (string, string) val)"
    and n: "\<not> isFunction (VNull :: (string, string) val)"
    by simp_all
  from augment_action [OF cookedHeap_objects, of "''e''" "[Str ''('', Str ''e'', Str '')'']"
      "VFunction ''function ($) { return $[1] }''"] f keys
  have 1: "\<exists>h' g' kvs'.
           augment cookedHeap 7 ''e'' [Str ''('', Str ''e'', Str '')'']
             (VFunction ''function ($) { return $[1] }'') = Inr h'
         \<and> objectAt h' (c_grammar cookedCrane) = Some (GrammarObj g')
         \<and> productions g' =
             productions sumsGrammar
               @ [\<lparr>pr_type = ''e'', pr_production = [Str ''('', Str ''e'', Str '')''],
                    pr_prec = Undefined\<rparr>]
         \<and> objectAt h' (c_actions cookedCrane) = Some (ActionsObj kvs')
         \<and> map_of kvs' = (map_of cookedActions)
               (length (productions sumsGrammar) \<mapsto> VFunction ''function ($) { return $[1] }'')
         \<and> resolution kvs' (length (productions sumsGrammar))
               (productions g' ! length (productions sumsGrammar))
               = ByAction (VFunction ''function ($) { return $[1] }'')
         \<and> list_all (\<lambda>kv. fst kv < length (productions g')) kvs'"
    by blast
  from augment_action [OF cookedHeap_objects, of "''e''" "[]" VNull] n keys
  have 2: "\<exists>h' g' kvs'.
           augment cookedHeap 7 ''e'' [] VNull = Inr h'
         \<and> objectAt h' (c_grammar cookedCrane) = Some (GrammarObj g')
         \<and> productions g' =
             productions sumsGrammar @ [\<lparr>pr_type = ''e'', pr_production = [], pr_prec = Undefined\<rparr>]
         \<and> objectAt h' (c_actions cookedCrane) = Some (ActionsObj kvs')
         \<and> kvs' = cookedActions
         \<and> resolution kvs' (length (productions sumsGrammar))
               (productions g' ! length (productions sumsGrammar)) = EmptySequence"
    by simp blast
  from cookedHeap_objects f keys 1 n 2 show ?thesis by blast
qed

section \<open>The table builder works on a clone\<close>

lemma generateParsingTable_result:
  assumes "Option.bind (objectAt h this) craneOf = Some c"
    and "objectAt h (c_grammar c) = Some (GrammarObj g)"
  shows "generateParsingTable builder h this debug
           = (h @ [GrammarObj (fst (builder g debug))], snd (builder g debug))"
  using assms
  by (simp add: generateParsingTable_def clone_def clr_def alloc_def objectAt_def nth_append)

text \<open>
  C3. \<open>generateParsingTable(debug)\<close> on a crane grammar leaves its grammar unchanged:
  the builder is handed a clone, a new object, so that after the call, whether it
  returned a table or threw, every object that existed before is as it was, the
  grammar with its productions, root and precedence included, and the only new
  object is the clone as the builder left it.
\<close>

theorem generateParsingTable_clone:
  assumes "Option.bind (objectAt h this) craneOf = Some c"
    and "objectAt h (c_grammar c) = Some (GrammarObj g)"
  shows "generateParsingTable builder h this debug
           = (h @ [GrammarObj (fst (builder g debug))], snd (builder g debug))
       \<and> take (length h) (fst (generateParsingTable builder h this debug)) = h
       \<and> objectAt (fst (generateParsingTable builder h this debug)) (c_grammar c)
           = Some (GrammarObj g)"
proof -
  from assms(2) have gl: "c_grammar c < length h" and gv: "h ! c_grammar c = GrammarObj g"
    by (auto simp: objectAt_def split: if_splits)
  from generateParsingTable_result [OF assms, of builder debug] gl gv
  show ?thesis by (simp add: objectAt_def nth_append)
qed

theorem generateParsingTable_clone_witness:
  "Option.bind (objectAt sumsHeap 4) craneOf = Some sumsCrane
   \<and> objectAt sumsHeap (c_grammar sumsCrane) = Some (GrammarObj sumsGrammar)
   \<and> generateParsingTable countingBuilder sumsHeap 4 False
           = (sumsHeap @ [GrammarObj (fst (countingBuilder sumsGrammar False))],
              snd (countingBuilder sumsGrammar False))
   \<and> take (length sumsHeap) (fst (generateParsingTable countingBuilder sumsHeap 4 False))
           = sumsHeap
   \<and> objectAt (fst (generateParsingTable countingBuilder sumsHeap 4 False))
           (c_grammar sumsCrane) = Some (GrammarObj sumsGrammar)
   \<and> fst (countingBuilder sumsGrammar False) \<noteq> sumsGrammar"
proof -
  have a: "Option.bind (objectAt sumsHeap 4) craneOf = Some sumsCrane"
    by (simp add: sumsHeap_objects)
  have b: "fst (countingBuilder sumsGrammar False) \<noteq> sumsGrammar"
    by (simp add: countingBuilder_def sumsGrammar_def)
  from a b sumsHeap_objects(2)
    generateParsingTable_clone [OF a sumsHeap_objects(2), of countingBuilder False]
  show ?thesis by blast
qed

section \<open>A conflict that no rule resolves\<close>

lemma resolveShiftReduce_error:
  "resolveShiftReduce g pr t = Inl err \<Longrightarrow> err = Error ''Grammar conflict''"
  by (auto simp: resolveShiftReduce_def split: option.splits if_splits associativity.splits)

lemma resolveConflicts_aborts:
  "pt \<in> set cs \<Longrightarrow> list_all (\<lambda>c. fst c < length (productions g)) cs
     \<Longrightarrow> resolveShiftReduce g (productions g ! fst pt) (snd pt) = Inl (Error ''Grammar conflict'')
     \<Longrightarrow> resolveConflicts g cs = Inl (Error ''Grammar conflict'')"
proof (induction cs)
  case Nil
  then show ?case by simp
next
  case (Cons x cs)
  from Cons.prems(2) have x: "element (productions g) (fst x) = Some (productions g ! fst x)"
    and rest: "list_all (\<lambda>c. fst c < length (productions g)) cs"
    by (simp_all add: element_def)
  show ?case
  proof (cases "resolveShiftReduce g (productions g ! fst x) (snd x)")
    case (Inl err)
    with resolveShiftReduce_error [OF Inl] x show ?thesis by simp
  next
    case (Inr d)
    with Cons.prems have "pt \<in> set cs" by auto
    from Cons.IH [OF this rest Cons.prems(3)] Inr x show ?thesis by simp
  qed
qed

text \<open>
  C6. During table construction a shift/reduce conflict in which the reducing
  production's effective precedence level equals the level of the incoming
  terminal, and that level has \<open>NONE\<close> associativity, is not resolved: it raises the
  grammar-conflict error, and \<open>generateParsingTable\<close> ends with that error and no
  table. The conflicts are those the construction meets, each naming a production
  of the grammar.
\<close>

theorem none_conflict_is_fatal:
  assumes "Option.bind (objectAt h this) craneOf = Some c"
    and "objectAt h (c_grammar c) = Some (GrammarObj g)"
    and "(p, t) \<in> set (conflicts g)"
    and "list_all (\<lambda>c. fst c < length (productions g)) (conflicts g)"
    and "effectivePrecedence g (productions g ! p) = Some lv"
    and "levelOf (precedence g) 0 t = Some (lv, NONE)"
  shows "resolveShiftReduce g (productions g ! p) t = Inl (Error ''Grammar conflict'')
       \<and> snd (generateParsingTable (conflictBuilder conflicts) h this debug)
           = Inl (Error ''Grammar conflict'')"
proof -
  have hard: "resolveShiftReduce g (productions g ! p) t = Inl (Error ''Grammar conflict'')"
    using assms(5,6) by (simp add: resolveShiftReduce_def)
  from resolveConflicts_aborts [OF assms(3,4)] hard
  have "resolveConflicts g (conflicts g) = Inl (Error ''Grammar conflict'')" by simp
  then have "snd (conflictBuilder conflicts g debug) = Inl (Error ''Grammar conflict'')"
    by (simp add: conflictBuilder_def)
  with generateParsingTable_result [OF assms(1,2), of "conflictBuilder conflicts" debug] hard
  show ?thesis by simp
qed

theorem none_conflict_is_fatal_witness:
  "Option.bind (objectAt sumsHeap 4) craneOf = Some sumsCrane
   \<and> objectAt sumsHeap (c_grammar sumsCrane) = Some (GrammarObj sumsGrammar)
   \<and> (2, ''unary'') \<in> set [(2, ''unary'')]
   \<and> list_all (\<lambda>c. fst c < length (productions sumsGrammar)) [(2, ''unary'')]
   \<and> effectivePrecedence sumsGrammar (productions sumsGrammar ! 2) = Some 1
   \<and> levelOf (precedence sumsGrammar) 0 ''unary'' = Some (1, NONE)
   \<and> resolveShiftReduce sumsGrammar (productions sumsGrammar ! 2) ''unary''
        = Inl (Error ''Grammar conflict'')
   \<and> snd (generateParsingTable (conflictBuilder (\<lambda>g. [(2, ''unary'')])) sumsHeap 4 False)
        = Inl (Error ''Grammar conflict'')"
proof -
  have a: "Option.bind (objectAt sumsHeap 4) craneOf = Some sumsCrane"
    by (simp add: sumsHeap_objects)
  have b: "(2, ''unary'') \<in> set ((\<lambda>g. [(2::nat, ''unary'')]) sumsGrammar)" by simp
  have v: "list_all (\<lambda>c. fst c < length (productions sumsGrammar))
             ((\<lambda>g. [(2::nat, ''unary'')]) sumsGrammar)"
    by (simp add: sumsGrammar_def)
  have c: "effectivePrecedence sumsGrammar (productions sumsGrammar ! 2) = Some 1"
    by (simp add: effectivePrecedence_def sumsGrammar_def)
  have d: "levelOf (precedence sumsGrammar) 0 ''unary'' = Some (1, NONE)"
    by (simp add: sumsGrammar_def)
  from a sumsHeap_objects(2) v c d
    none_conflict_is_fatal [OF a sumsHeap_objects(2) b v c d, of False]
  show ?thesis by simp
qed

section \<open>Names that no scope binds\<close>

text \<open>
  What \<open>toGrammar\<close> does with an \<open>id\<close> element: the innermost table that binds the name
  decides, an unbound name falls through to the enclosing tables, and a name that
  neither a table of the chain nor \<open>Object.prototype\<close> knows is an error.
\<close>

lemma lookup_innermost:
  "map_of (tableAt st a) name = Some v \<Longrightarrow> lookup st (a # chain) name = Some (Str v)"
  by simp

lemma lookup_falls_back:
  "map_of (tableAt st a) name = None \<Longrightarrow> lookup st (a # chain) name = lookup st chain name"
  by simp

lemma lookup_unbound:
  "list_all (\<lambda>a. map_of (tableAt st a) name = None) chain \<Longrightarrow> name \<notin> set objectPrototype
     \<Longrightarrow> lookup st chain name = None"
  by (induction chain) simp_all

lemma reform_unbound:
  "list_all (\<lambda>a. map_of (tableAt (s_store s) a) name = None) vs \<Longrightarrow> name \<notin> set objectPrototype
     \<Longrightarrow> reform ctxt vs (Id name # es) s reformed
           = Inl (Error (''Non-terminal '' @ [CHR 0x22] @ name @ [CHR 0x22] @ '' not defined''))"
  by (simp add: lookup_unbound)

text \<open>
  C8. A name that a production refers to and that no enclosing scope binds is to
  make \<open>toGrammar\<close> throw an error that names the undefined non-terminal. The code
  does not do so for a name that \<open>Object.prototype\<close> has, such as \<open>toString\<close>: the test
  \<open>name in vars\<close> succeeds although no scope binds the name, and \<open>toGrammar\<close> returns a
  grammar whose production holds the inherited function in place of a symbol.
\<close>

theorem inherited_name_not_rejected:
  "toGrammar echoLibs ([] :: (string, string) heap)
     [Definition None ''a'' [ProductionLine None [Id ''toString''] None None]] None (\<lambda>n. None)
   = Inr ([GrammarObj
            \<lparr>productions =
               [\<lparr>pr_type = ''$$$'', pr_production = [Str ''a''], pr_prec = Undefined\<rparr>,
                \<lparr>pr_type = ''a'',
                  pr_production = [Coerced ''function toString() { [native code] }''],
                  pr_prec = Null\<rparr>],
             root = 0, precedence = []\<rparr>,
           ActionsObj [(0, VAst ''function ($, $loc, $rule) {return do  => $[0]}'')],
           ImportsArray [], LinesArray [Some 0, Some 0],
           Cold \<lparr>c_grammar = 0, c_actions = 1, c_dependencies = 2, c_sourceLineMappings = 3\<rparr>],
          4)"
  by (simp add: echoLibs_def toGrammar_def collect_def initial_def Let_def assign_def
        objectCreate_def compileLS_def alloc_def newCraneGrammar_def objectAt_def
        addSourceLineMapping_def arraySet_def extractor_def orElse_def tableAt_def
        objectPrototype_def inherited_def)

section \<open>Errors raised by \<open>push\<close>\<close>

text \<open>
  When \<open>getLoc\<close> finds the token, the rethrown error carries the message of the
  original one and the position of the token's start.
\<close>

lemma compile_rethrows_located:
  assumes "fst (tokenize prs (string @ [CHR 0x0A])) = pre @ tok # post"
    and "pushAll (push prs) (newParser prs string) pre = Inr q"
    and "push prs q tok = Inl e"
    and "t_range tok = [a, b]" and "0 \<le> a" and "a < b" and "b < int (length (t_source tok))"
  shows "compile libs prs h string name additional
           = Inl (Error (message e @ '' @'' @ numberToString (lineAt (t_source tok) (nat a))
                         @ '':'' @ numberToString (columnAt (t_source tok) (nat a))))"
proof -
  from assms(4) have "tok = \<lparr>t_source = t_source tok, t_range = [a, b]\<rparr>" by (cases tok) simp
  then have "getLoc tok = getLoc \<lparr>t_source = t_source tok, t_range = [a, b]\<rparr>" by simp
  also have "\<dots> = Some (Some \<lparr>line = lineAt (t_source tok) (nat a),
                                   column = columnAt (t_source tok) (nat a)\<rparr>,
                            Some \<lparr>line = lineAt (t_source tok) (nat b),
                                   column = columnAt (t_source tok) (nat b)\<rparr>)"
    using assms(5-7) by (simp add: getLoc_two)
  finally have "pushAll (push prs) q (tok # post)
      = Inl (Error (message e @ '' @'' @ numberToString (lineAt (t_source tok) (nat a))
                         @ '':'' @ numberToString (columnAt (t_source tok) (nat a))))"
    using assms(3) by simp
  then show ?thesis
    using assms(1,2) by (simp add: compile_def Let_def pushAll_append)
qed

text \<open>
  C9. Every error raised by \<open>push\<close> during \<open>compile\<close> is to be rethrown at that token
  with its message followed by the line and column of the token's start. The code
  does not do so for the input \<open>a\<close>, tokenized over the source \<open>a\<close> plus newline into
  \<open>[0, 1)\<close> and \<open>[1, 2)\<close>, when the parser rejects the second token: the end offset 2
  is the length of the source, \<open>getLoc\<close> returns \<open>undefined\<close>, \<open>compile\<close> throws a
  \<open>TypeError\<close>, and the message \<open>Unexpected token\<close> and the position 1:1 are lost.
\<close>

theorem push_error_location_lost:
  "compile echoLibs strictParser ([] :: (string, string) heap) ''a'' None (\<lambda>n. None)
     = Inl (TypeError ''Cannot read properties of undefined (reading start)'')"
  by (simp add: compile_def strictParser_def getLoc_def element_def Let_def)

end
